theory Spec2Isabelle
  imports Main "HOL-Library.Word"
begin

section \<open>The enforcement ledger: contract TrafficEnforcementV2\<close>

text \<open>
  A shallow embedding of the Solidity contract \<^verbatim>\<open>TrafficEnforcementV2\<close>
  (the ledger logic next to the hardhat configuration). Storage is one record that every
  entry point takes and returns; a revert is the left injection of the result, so a
  reverted call carries no state at all. Solidity mappings are total functions whose
  default is the zero value of the value type. \<^verbatim>\<open>uint256\<close> values are natural
  numbers and every checked operation of Solidity 0.8 that may overflow is written out as
  a \<^verbatim>\<open>Panic\<close> branch. The caller (\<^verbatim>\<open>msg.sender\<close>), the attached value
  (\<^verbatim>\<open>msg.value\<close>) and the block time (\<^verbatim>\<open>block.timestamp\<close>) are explicit
  arguments. \<^verbatim>\<open>keccak256\<close> is an argument of \<^verbatim>\<open>logViolation\<close>: nothing is
  assumed about it. The recipient of an outbound value transfer is represented by one
  boolean, whether it accepts the value; what the recipient runs while it holds control is
  not part of the model, and the storage it is called from is made explicit for
  \<^verbatim>\<open>claimRefund\<close>.
\<close>

subsection \<open>Types, constants, enums and structs\<close>

type_synonym address = "160 word"
type_synonym bytes32 = "256 word"
type_synonym uint32 = "32 word"
type_synonym bytes = "8 word list"

datatype Role =
    DEFAULT_ADMIN_ROLE
  | ADMIN_ROLE
  | OFFICER_MANAGER_ROLE
  | OFFICER_ROLE
  | JUDGE_ROLE
  | TREASURY_ROLE
  | UPGRADER_ROLE

definition MAX_VIOLATIONS_PER_DAY :: nat where
  "MAX_VIOLATIONS_PER_DAY = 100"

definition MAX_APPEALS_PER_VIOLATION :: nat where
  "MAX_APPEALS_PER_VIOLATION = 3"

definition one_day :: nat where
  "one_day = 86400"

definition APPEAL_COOLDOWN :: nat where
  "APPEAL_COOLDOWN = 7 * one_day"

definition KES_TO_WEI_RATE :: nat where
  "KES_TO_WEI_RATE = 10 ^ 15"

definition MAX_STRING_LENGTH :: nat where
  "MAX_STRING_LENGTH = 500"

definition MAX_VEHICLE_ID_LENGTH :: nat where
  "MAX_VEHICLE_ID_LENGTH = 20"

definition MAX_BADGE_LENGTH :: nat where
  "MAX_BADGE_LENGTH = 50"

definition uint256_max :: nat where
  "uint256_max = 2 ^ 256 - 1"

datatype ViolationStatus = Unpaid | Paid | Appealed | Waived | Rejected | Refunded

record Violation =
  violationId :: bytes32
  vehicleId :: string
  officerId :: address
  offenseCode :: uint32
  evidenceHash :: string
  timestamp :: nat
  fineAmount :: nat
  status :: ViolationStatus
  driverId :: address
  paidAmount :: nat
  paidBy :: address

record Officer =
  officerId :: address
  name :: string
  badgeNumber :: string
  isActive :: bool
  registrationTime :: nat
  dailyViolationCount :: nat
  lastViolationDate :: nat

record Appeal =
  violationId :: bytes32
  appellant :: address
  appealReason :: string
  appealTime :: nat
  resolved :: bool
  approved :: bool
  resolution :: string
  resolvedBy :: address
  appealCount :: nat
  lastAppealTime :: nat

record Offense =
  fineAmountKES :: nat
  name :: string
  isActive :: bool

datatype Event =
    OfficerRegistered address string string address
  | OfficerDeactivated address address
  | OfficerReactivated address address
  | ViolationLogged bytes32 string uint32 nat address
  | FinePaid bytes32 address nat
  | FineRefunded bytes32 address nat
  | AppealSubmitted bytes32 address string
  | AppealResolved bytes32 bool string address
  | FundsWithdrawn address address nat
  | RefundClaimed address nat
  | OffenseUpdated uint32 nat string
  | RoleGranted Role address address
  | RoleRevoked Role address address
  | Paused address
  | Unpaused address
  | Initialized

datatype error =
    AccessControlUnauthorizedAccount address Role
  | AccessControlBadConfirmation
  | EnforcedPause
  | ExpectedPause
  | ReentrancyGuardReentrantCall
  | InvalidInitialization
  | Revert string
  | Panic

text \<open>
  The storage of the contract, followed by what it inherits (the role table of
  AccessControl, the flag of Pausable, the status of ReentrancyGuard, the flag of
  Initializable), its balance, the event log, and the list of the outbound value
  transfers it has made (recipient, amount).
\<close>

record state =
  violations :: "bytes32 \<Rightarrow> Violation"
  officers :: "address \<Rightarrow> Officer"
  vehicleViolations :: "string \<Rightarrow> bytes32 list"
  appeals :: "bytes32 \<Rightarrow> Appeal"
  offenses :: "uint32 \<Rightarrow> Offense"
  totalViolations :: nat
  totalFinesPaid :: nat
  totalFinesRefunded :: nat
  officerDailyViolations :: "address \<Rightarrow> nat \<Rightarrow> nat"
  pendingRefunds :: "address \<Rightarrow> nat"
  version :: nat
  roles :: "Role \<Rightarrow> address \<Rightarrow> bool"
  paused :: bool
  entered :: bool
  initialized :: bool
  balance :: nat
  events :: "Event list"
  sent :: "(address \<times> nat) list"

definition zero_Violation :: Violation where
  "zero_Violation = \<lparr> Violation.violationId = 0, vehicleId = [],
     Violation.officerId = 0, offenseCode = 0,
     evidenceHash = [], timestamp = 0, fineAmount = 0, status = Unpaid, driverId = 0,
     paidAmount = 0, paidBy = 0 \<rparr>"

definition zero_Officer :: Officer where
  "zero_Officer = \<lparr> Officer.officerId = 0, Officer.name = [], badgeNumber = [],
     Officer.isActive = False,
     registrationTime = 0, dailyViolationCount = 0, lastViolationDate = 0 \<rparr>"

definition zero_Appeal :: Appeal where
  "zero_Appeal = \<lparr> Appeal.violationId = 0, appellant = 0, appealReason = [], appealTime = 0,
     resolved = False, approved = False, resolution = [], resolvedBy = 0, appealCount = 0,
     lastAppealTime = 0 \<rparr>"

definition zero_Offense :: Offense where
  "zero_Offense = \<lparr> fineAmountKES = 0, Offense.name = [], Offense.isActive = False \<rparr>"

text \<open>The storage of a freshly deployed proxy, before \<^verbatim>\<open>initialize\<close>.\<close>

definition deployed :: state where
  "deployed = \<lparr> violations = (\<lambda>_. zero_Violation), officers = (\<lambda>_. zero_Officer),
     vehicleViolations = (\<lambda>_. []), appeals = (\<lambda>_. zero_Appeal),
     offenses = (\<lambda>_. zero_Offense), totalViolations = 0, totalFinesPaid = 0,
     totalFinesRefunded = 0, officerDailyViolations = (\<lambda>_ _. 0),
     pendingRefunds = (\<lambda>_. 0), version = 0, roles = (\<lambda>_ _. False), paused = False,
     entered = False, initialized = False, balance = 0, events = [], sent = [] \<rparr>"

subsection \<open>Inherited building blocks\<close>

text \<open>
  Modelled from the spec: the contracts this one inherits (OpenZeppelin's AccessControl,
  Pausable, ReentrancyGuard and Initializable) are imported by the source and are not
  among its files. What the ledger uses of them is written as the spec describes it: a
  capability registry that answers whether a principal holds a role and records grants
  and revocations, made by holders of the role's admin role; one paused flag, which the
  gated entry points refuse under; an in-progress flag, which refuses a nested invocation
  of a guarded entry point; an initialised flag, which lets \<^verbatim>\<open>initialize\<close> run once.
  The modifiers \<^verbatim>\<open>onlyRole\<close>, \<^verbatim>\<open>whenNotPaused\<close> and \<^verbatim>\<open>nonReentrant\<close>
  are the first checks of the entry points that carry them, in the order of the source.
\<close>

definition emit :: "Event \<Rightarrow> state \<Rightarrow> state" where
  "emit e s = s\<lparr> events := events s @ [e] \<rparr>"

definition hasRole :: "state \<Rightarrow> Role \<Rightarrow> address \<Rightarrow> bool" where
  "hasRole s role account = roles s role account"

text \<open>No role admin is ever set, so the admin of every role is the default admin role.\<close>

definition getRoleAdmin :: "Role \<Rightarrow> Role" where
  "getRoleAdmin role = DEFAULT_ADMIN_ROLE"

definition internal_grantRole :: "address \<Rightarrow> Role \<Rightarrow> address \<Rightarrow> state \<Rightarrow> state" where
  "internal_grantRole msg_sender role account s =
     (if hasRole s role account then s
      else emit (RoleGranted role account msg_sender)
             (s\<lparr> roles := (roles s)(role := (roles s role)(account := True)) \<rparr>))"

definition internal_revokeRole :: "address \<Rightarrow> Role \<Rightarrow> address \<Rightarrow> state \<Rightarrow> state" where
  "internal_revokeRole msg_sender role account s =
     (if hasRole s role account
      then emit (RoleRevoked role account msg_sender)
             (s\<lparr> roles := (roles s)(role := (roles s role)(account := False)) \<rparr>)
      else s)"

definition grantRole :: "address \<Rightarrow> Role \<Rightarrow> address \<Rightarrow> state \<Rightarrow> error + state" where
  "grantRole msg_sender role account s =
     (if \<not> hasRole s (getRoleAdmin role) msg_sender
      then Inl (AccessControlUnauthorizedAccount msg_sender (getRoleAdmin role))
      else Inr (internal_grantRole msg_sender role account s))"

definition revokeRole :: "address \<Rightarrow> Role \<Rightarrow> address \<Rightarrow> state \<Rightarrow> error + state" where
  "revokeRole msg_sender role account s =
     (if \<not> hasRole s (getRoleAdmin role) msg_sender
      then Inl (AccessControlUnauthorizedAccount msg_sender (getRoleAdmin role))
      else Inr (internal_revokeRole msg_sender role account s))"

definition renounceRole :: "address \<Rightarrow> Role \<Rightarrow> address \<Rightarrow> state \<Rightarrow> error + state" where
  "renounceRole msg_sender role callerConfirmation s =
     (if callerConfirmation \<noteq> msg_sender then Inl AccessControlBadConfirmation
      else Inr (internal_revokeRole msg_sender role callerConfirmation s))"

text \<open>
  The low-level call \<^verbatim>\<open>payable(to).call{value: amount}("")\<close>: it succeeds when the
  contract holds the amount and the recipient accepts it.
\<close>

definition send_value :: "address \<Rightarrow> nat \<Rightarrow> bool \<Rightarrow> state \<Rightarrow> state option" where
  "send_value to amount accepted s =
     (if amount \<le> balance s \<and> accepted
      then Some (s\<lparr> balance := balance s - amount, sent := sent s @ [(to, amount)] \<rparr>)
      else None)"

subsection \<open>Modifiers\<close>

definition violationExists :: "state \<Rightarrow> bytes32 \<Rightarrow> bool" where
  "violationExists s vid = (timestamp (violations s vid) \<noteq> 0)"

definition validAddress :: "address \<Rightarrow> bool" where
  "validAddress addr = (addr \<noteq> 0)"

definition validString :: "string \<Rightarrow> nat \<Rightarrow> error option" where
  "validString str maxLength =
     (if \<not> length str > 0 then Some (Revert ''String cannot be empty'')
      else if \<not> length str \<le> maxLength then Some (Revert ''String exceeds maximum length'')
      else None)"

definition rateLimited :: "state \<Rightarrow> address \<Rightarrow> nat \<Rightarrow> bool" where
  "rateLimited s msg_sender block_timestamp =
     (let today = block_timestamp div one_day
      in officerDailyViolations s msg_sender today < MAX_VIOLATIONS_PER_DAY)"

subsection \<open>Initialisation\<close>

definition internal_initializeOffenses :: "state \<Rightarrow> state" where
  "internal_initializeOffenses s = s\<lparr> offenses := (offenses s)
     (1 := \<lparr> fineAmountKES = 0, Offense.name = ''Speeding 1-5 kph over limit (Warning)'',
            Offense.isActive = True \<rparr>,
      2 := \<lparr> fineAmountKES = 500, Offense.name = ''Speeding 6-10 kph over limit'',
            Offense.isActive = True \<rparr>,
      3 := \<lparr> fineAmountKES = 3000, Offense.name = ''Speeding 11-15 kph over limit'',
            Offense.isActive = True \<rparr>,
      4 := \<lparr> fineAmountKES = 10000, Offense.name = ''Speeding 16-20 kph over limit'',
            Offense.isActive = True \<rparr>,
      5 := \<lparr> fineAmountKES = 500, Offense.name = ''Failure to wear seatbelt'',
            Offense.isActive = True \<rparr>,
      6 := \<lparr> fineAmountKES = 3000, Offense.name = ''Driving without valid license'',
            Offense.isActive = True \<rparr>,
      7 := \<lparr> fineAmountKES = 3000, Offense.name = ''Failure to obey traffic signs'',
            Offense.isActive = True \<rparr>,
      8 := \<lparr> fineAmountKES = 5000, Offense.name = ''Failure to stop when signaled by police'',
            Offense.isActive = True \<rparr>,
      9 := \<lparr> fineAmountKES = 10000, Offense.name = ''Causing obstruction with vehicle'',
            Offense.isActive = True \<rparr>,
      10 := \<lparr> fineAmountKES = 5000,
             Offense.name = ''Driving on pavement or pedestrian walkway'',
             Offense.isActive = True \<rparr>,
      11 := \<lparr> fineAmountKES = 10000, Offense.name = ''Driving without identification plates'',
             Offense.isActive = True \<rparr>,
      12 := \<lparr> fineAmountKES = 1000,
             Offense.name = ''Motorcycle carrying more than one pillion passenger'',
             Offense.isActive = True \<rparr>,
      13 := \<lparr> fineAmountKES = 3000, Offense.name = ''Touting'', Offense.isActive = True \<rparr>,
      14 := \<lparr> fineAmountKES = 2000, Offense.name = ''Using mobile phone while driving'',
             Offense.isActive = True \<rparr>,
      15 := \<lparr> fineAmountKES = 10000,
             Offense.name = ''Driving without valid inspection certificate'',
             Offense.isActive = True \<rparr>) \<rparr>"

definition initialize :: "address \<Rightarrow> address \<Rightarrow> state \<Rightarrow> error + state" where
  "initialize msg_sender admin s =
     (if initialized s then Inl InvalidInitialization
      else
        let s1 = s\<lparr> initialized := True \<rparr>;
            s2 = internal_grantRole msg_sender DEFAULT_ADMIN_ROLE admin s1;
            s3 = internal_grantRole msg_sender ADMIN_ROLE admin s2;
            s4 = internal_grantRole msg_sender OFFICER_MANAGER_ROLE admin s3;
            s5 = internal_grantRole msg_sender JUDGE_ROLE admin s4;
            s6 = internal_grantRole msg_sender TREASURY_ROLE admin s5;
            s7 = internal_grantRole msg_sender UPGRADER_ROLE admin s6;
            s8 = s7\<lparr> version := 1 \<rparr>
        in Inr (emit Initialized (internal_initializeOffenses s8)))"

subsection \<open>Officer management\<close>

definition registerOfficer ::
  "address \<Rightarrow> nat \<Rightarrow> address \<Rightarrow> string \<Rightarrow> string \<Rightarrow> state \<Rightarrow> error + state" where
  "registerOfficer msg_sender block_timestamp officer nm badge s =
     (if \<not> hasRole s OFFICER_MANAGER_ROLE msg_sender
      then Inl (AccessControlUnauthorizedAccount msg_sender OFFICER_MANAGER_ROLE)
      else if \<not> validAddress officer then Inl (Revert ''Invalid address: zero address'')
      else case validString nm MAX_STRING_LENGTH of Some e \<Rightarrow> Inl e | None \<Rightarrow>
      (case validString badge MAX_BADGE_LENGTH of Some e \<Rightarrow> Inl e | None \<Rightarrow>
      (if paused s then Inl EnforcedPause
       else if Officer.isActive (officers s officer) then Inl (Revert ''Officer already active'')
       else if registrationTime (officers s officer) > 0
       then
         Inr (emit (OfficerReactivated officer msg_sender)
               (internal_grantRole msg_sender OFFICER_ROLE officer
                 (s\<lparr> officers := (officers s)
                      (officer := (officers s officer)\<lparr> Officer.isActive := True \<rparr>) \<rparr>)))
       else
         Inr (emit (OfficerRegistered officer nm badge msg_sender)
               (internal_grantRole msg_sender OFFICER_ROLE officer
                 (s\<lparr> officers := (officers s)
                      (officer := \<lparr> Officer.officerId = officer, Officer.name = nm,
                          badgeNumber = badge, Officer.isActive = True,
                          registrationTime = block_timestamp, dailyViolationCount = 0,
                          lastViolationDate = 0 \<rparr>) \<rparr>))))))"

definition deactivateOfficer :: "address \<Rightarrow> address \<Rightarrow> state \<Rightarrow> error + state" where
  "deactivateOfficer msg_sender officer s =
     (if \<not> hasRole s OFFICER_MANAGER_ROLE msg_sender
      then Inl (AccessControlUnauthorizedAccount msg_sender OFFICER_MANAGER_ROLE)
      else if paused s then Inl EnforcedPause
      else if \<not> Officer.isActive (officers s officer) then Inl (Revert ''Officer not active'')
      else
        Inr (emit (OfficerDeactivated officer msg_sender)
              (internal_revokeRole msg_sender OFFICER_ROLE officer
                (s\<lparr> officers := (officers s)
                     (officer := (officers s officer)\<lparr> Officer.isActive := False \<rparr>) \<rparr>))))"

definition isOfficerActive :: "state \<Rightarrow> address \<Rightarrow> bool" where
  "isOfficerActive s officer =
     (Officer.isActive (officers s officer) \<and> hasRole s OFFICER_ROLE officer)"

subsection \<open>Violations\<close>

text \<open>
  \<^verbatim>\<open>abi.encodePacked(vehicleId, msg.sender, block.timestamp, offenseCode)\<close>: the bytes
  of the string, then the address on 20 bytes, the time on 32 and the code on 4, each
  big-endian.
\<close>

primrec be_bytes :: "nat \<Rightarrow> nat \<Rightarrow> bytes" where
  "be_bytes 0 v = []"
| "be_bytes (Suc n) v = be_bytes n (v div 256) @ [of_nat (v mod 256)]"

definition abi_encodePacked :: "string \<Rightarrow> address \<Rightarrow> nat \<Rightarrow> uint32 \<Rightarrow> bytes" where
  "abi_encodePacked vehicle sender block_timestamp code =
     map (\<lambda>c. of_nat (of_char c)) vehicle @ be_bytes 20 (unat sender)
       @ be_bytes 32 block_timestamp @ be_bytes 4 (unat code)"

definition logViolation ::
  "(bytes \<Rightarrow> bytes32) \<Rightarrow> address \<Rightarrow> nat \<Rightarrow> string \<Rightarrow> uint32 \<Rightarrow> string \<Rightarrow> address \<Rightarrow> state
     \<Rightarrow> error + (bytes32 \<times> state)" where
  "logViolation keccak256 msg_sender block_timestamp vehicle code evidence driver s =
     (if \<not> hasRole s OFFICER_ROLE msg_sender
      then Inl (AccessControlUnauthorizedAccount msg_sender OFFICER_ROLE)
      else if \<not> rateLimited s msg_sender block_timestamp
      then Inl (Revert ''Daily violation limit exceeded'')
      else case validString vehicle MAX_VEHICLE_ID_LENGTH of Some e \<Rightarrow> Inl e | None \<Rightarrow>
      (case validString evidence MAX_STRING_LENGTH of Some e \<Rightarrow> Inl e | None \<Rightarrow>
      (if \<not> validAddress driver then Inl (Revert ''Invalid address: zero address'')
       else if paused s then Inl EnforcedPause
       else if \<not> Offense.isActive (offenses s code)
       then Inl (Revert ''Invalid or inactive offense code'')
       else
         let today = block_timestamp div one_day;
             officer0 = officers s msg_sender;
             officer1 = (if lastViolationDate officer0 \<noteq> today
                         then officer0\<lparr> dailyViolationCount := 0, lastViolationDate := today \<rparr>
                         else officer0)
         in
         if \<not> dailyViolationCount officer1 + 1 \<le> uint256_max then Inl Panic
         else if \<not> fineAmountKES (offenses s code) * KES_TO_WEI_RATE \<le> uint256_max
         then Inl Panic
         else if \<not> totalViolations s + 1 \<le> uint256_max then Inl Panic
         else
           let officer2 = officer1\<lparr> dailyViolationCount := dailyViolationCount officer1 + 1 \<rparr>;
               fine = fineAmountKES (offenses s code) * KES_TO_WEI_RATE;
               vid = keccak256 (abi_encodePacked vehicle msg_sender block_timestamp code)
           in Inr (vid, emit (ViolationLogged vid vehicle code fine msg_sender)
                (s\<lparr> officers := (officers s)(msg_sender := officer2),
                    violations := (violations s)
                      (vid := \<lparr> Violation.violationId = vid, vehicleId = vehicle,
                          Violation.officerId = msg_sender, offenseCode = code,
                          evidenceHash = evidence, timestamp = block_timestamp,
                          fineAmount = fine, status = Unpaid, driverId = driver,
                          paidAmount = 0, paidBy = 0 \<rparr>),
                    vehicleViolations := (vehicleViolations s)
                      (vehicle := vehicleViolations s vehicle @ [vid]),
                    totalViolations := totalViolations s + 1 \<rparr>)))))"

definition getViolation :: "state \<Rightarrow> bytes32 \<Rightarrow> error + Violation" where
  "getViolation s vid =
     (if \<not> violationExists s vid then Inl (Revert ''Violation does not exist'')
      else Inr (violations s vid))"

definition getVehicleViolations :: "state \<Rightarrow> string \<Rightarrow> nat \<Rightarrow> nat \<Rightarrow> error + bytes32 list" where
  "getVehicleViolations s vehicle offset limit =
     (let allViolations = vehicleViolations s vehicle in
      if offset \<ge> length allViolations then Inr []
      else if \<not> offset + limit \<le> uint256_max then Inl Panic
      else
        let end0 = offset + limit;
            end1 = (if end0 > length allViolations then length allViolations else end0)
        in Inr (map (\<lambda>i. allViolations ! i) [offset ..< end1]))"

subsection \<open>Fine payment\<close>

definition payFine :: "address \<Rightarrow> nat \<Rightarrow> bool \<Rightarrow> bytes32 \<Rightarrow> state \<Rightarrow> error + state" where
  "payFine msg_sender msg_value refund_accepted vid s0 =
     (let s = s0\<lparr> balance := balance s0 + msg_value \<rparr> in
      if entered s then Inl ReentrancyGuardReentrantCall
      else if \<not> violationExists s vid then Inl (Revert ''Violation does not exist'')
      else if paused s then Inl EnforcedPause
      else
        let violation = violations s vid in
        if \<not> status violation = Unpaid then Inl (Revert ''Violation is not unpaid'')
        else if \<not> msg_value \<ge> fineAmount violation then Inl (Revert ''Insufficient payment'')
        else if \<not> totalFinesPaid s + fineAmount violation \<le> uint256_max then Inl Panic
        else
          let s1 = s\<lparr> entered := True,
                     violations := (violations s)
                       (vid := violation\<lparr> status := Paid, paidAmount := fineAmount violation,
                                 paidBy := msg_sender \<rparr>),
                     totalFinesPaid := totalFinesPaid s + fineAmount violation \<rparr>
          in
          if msg_value > fineAmount violation
          then
            (case send_value msg_sender (msg_value - fineAmount violation) refund_accepted s1 of
               None \<Rightarrow> Inl (Revert ''Refund transfer failed'')
             | Some s2 \<Rightarrow>
                 Inr ((emit (FinePaid vid msg_sender (fineAmount violation)) s2)
                        \<lparr> entered := False \<rparr>))
          else Inr ((emit (FinePaid vid msg_sender (fineAmount violation)) s1)
                      \<lparr> entered := False \<rparr>))"

subsection \<open>Appeals and refunds\<close>

definition submitAppeal :: "address \<Rightarrow> nat \<Rightarrow> bytes32 \<Rightarrow> string \<Rightarrow> state \<Rightarrow> error + state" where
  "submitAppeal msg_sender block_timestamp vid reason s =
     (if \<not> violationExists s vid then Inl (Revert ''Violation does not exist'')
      else if paused s then Inl EnforcedPause
      else
        let violation = violations s vid;
            appeal = appeals s vid
        in
        if \<not> (status violation = Unpaid \<or> status violation = Paid)
        then Inl (Revert ''Cannot appeal this violation'')
        else if \<not> msg_sender = driverId violation then Inl (Revert ''Only the driver can appeal'')
        else if \<not> length reason > 0 then Inl (Revert ''Appeal reason cannot be empty'')
        else if resolved appeal then Inl (Revert ''Previous appeal already resolved'')
        else if \<not> appealCount appeal < MAX_APPEALS_PER_VIOLATION
        then Inl (Revert ''Max appeals exceeded'')
        else if appealCount appeal > 0 \<and> \<not> lastAppealTime appeal + APPEAL_COOLDOWN \<le> uint256_max
        then Inl Panic
        else if appealCount appeal > 0
                \<and> \<not> block_timestamp \<ge> lastAppealTime appeal + APPEAL_COOLDOWN
        then Inl (Revert ''Appeal cooldown active'')
        else if \<not> appealCount appeal + 1 \<le> uint256_max then Inl Panic
        else
          Inr (emit (AppealSubmitted vid msg_sender reason)
                (s\<lparr> violations := (violations s)(vid := violation\<lparr> status := Appealed \<rparr>),
                    appeals := (appeals s)
                      (vid := appeal\<lparr> Appeal.violationId := vid, appellant := msg_sender,
                                appealReason := reason, appealTime := block_timestamp,
                                resolved := False, approved := False, resolution := [],
                                appealCount := appealCount appeal + 1,
                                lastAppealTime := block_timestamp \<rparr>) \<rparr>)))"

definition resolveAppeal :: "address \<Rightarrow> bytes32 \<Rightarrow> bool \<Rightarrow> string \<Rightarrow> state \<Rightarrow> error + state" where
  "resolveAppeal msg_sender vid approve text s =
     (if \<not> hasRole s JUDGE_ROLE msg_sender
      then Inl (AccessControlUnauthorizedAccount msg_sender JUDGE_ROLE)
      else if \<not> violationExists s vid then Inl (Revert ''Violation does not exist'')
      else if paused s then Inl EnforcedPause
      else if \<not> status (violations s vid) = Appealed then Inl (Revert ''No pending appeal'')
      else if resolved (appeals s vid) then Inl (Revert ''Appeal already resolved'')
      else
        let violation = violations s vid;
            appeal = (appeals s vid)\<lparr> resolved := True, approved := approve,
                        resolution := text, resolvedBy := msg_sender \<rparr>;
            s1 = s\<lparr> appeals := (appeals s)(vid := appeal) \<rparr>
        in
        if approve then
          (if paidAmount violation > 0 then
             (if \<not> pendingRefunds s1 (paidBy violation) + paidAmount violation \<le> uint256_max
              then Inl Panic
              else if \<not> totalFinesRefunded s1 + paidAmount violation \<le> uint256_max
              then Inl Panic
              else
                Inr (emit (AppealResolved vid approve text msg_sender)
                      (emit (FineRefunded vid (paidBy violation) (paidAmount violation))
                        (s1\<lparr> violations := (violations s1)
                               (vid := violation\<lparr> status := Refunded \<rparr>),
                             pendingRefunds := (pendingRefunds s1)
                               (paidBy violation :=
                                  pendingRefunds s1 (paidBy violation) + paidAmount violation),
                             totalFinesRefunded :=
                               totalFinesRefunded s1 + paidAmount violation \<rparr>))))
           else
             Inr (emit (AppealResolved vid approve text msg_sender)
                   (s1\<lparr> violations := (violations s1)
                          (vid := violation\<lparr> status := Waived \<rparr>) \<rparr>)))
        else
          (if paidAmount violation > 0 then
             Inr (emit (AppealResolved vid approve text msg_sender)
                   (s1\<lparr> violations := (violations s1)(vid := violation\<lparr> status := Paid \<rparr>) \<rparr>))
           else
             Inr (emit (AppealResolved vid approve text msg_sender)
                   (s1\<lparr> violations := (violations s1)
                          (vid := violation\<lparr> status := Rejected \<rparr>) \<rparr>))))"

text \<open>
  \<^verbatim>\<open>claimRefund\<close> in two parts: the checks and the storage writes that precede the
  outbound call, giving the amount read and the storage the call is made from; then the
  call itself and what follows it.
\<close>

definition claimRefund_effects :: "address \<Rightarrow> state \<Rightarrow> error + (nat \<times> state)" where
  "claimRefund_effects msg_sender s =
     (if entered s then Inl ReentrancyGuardReentrantCall
      else if paused s then Inl EnforcedPause
      else
        let amount = pendingRefunds s msg_sender in
        if \<not> amount > 0 then Inl (Revert ''No pending refunds'')
        else Inr (amount, s\<lparr> entered := True,
                             pendingRefunds := (pendingRefunds s)(msg_sender := 0) \<rparr>))"

definition claimRefund :: "address \<Rightarrow> bool \<Rightarrow> state \<Rightarrow> error + state" where
  "claimRefund msg_sender accepted s =
     (case claimRefund_effects msg_sender s of
        Inl e \<Rightarrow> Inl e
      | Inr (amount, s1) \<Rightarrow>
          (case send_value msg_sender amount accepted s1 of
             None \<Rightarrow> Inl (Revert ''Transfer failed'')
           | Some s2 \<Rightarrow> Inr ((emit (RefundClaimed msg_sender amount) s2)\<lparr> entered := False \<rparr>)))"

subsection \<open>Administration and treasury\<close>

definition updateOffense ::
  "address \<Rightarrow> uint32 \<Rightarrow> nat \<Rightarrow> string \<Rightarrow> bool \<Rightarrow> state \<Rightarrow> error + state" where
  "updateOffense msg_sender code amountKES nm active s =
     (if \<not> hasRole s ADMIN_ROLE msg_sender
      then Inl (AccessControlUnauthorizedAccount msg_sender ADMIN_ROLE)
      else
        Inr (emit (OffenseUpdated code amountKES nm)
              (s\<lparr> offenses := (offenses s)
                   (code := \<lparr> fineAmountKES = amountKES, Offense.name = nm,
                              Offense.isActive = active \<rparr>) \<rparr>)))"

definition withdrawFunds :: "address \<Rightarrow> bool \<Rightarrow> address \<Rightarrow> nat \<Rightarrow> state \<Rightarrow> error + state" where
  "withdrawFunds msg_sender accepted recipient amount s =
     (if \<not> hasRole s TREASURY_ROLE msg_sender
      then Inl (AccessControlUnauthorizedAccount msg_sender TREASURY_ROLE)
      else if entered s then Inl ReentrancyGuardReentrantCall
      else if \<not> amount \<le> balance s then Inl (Revert ''Insufficient contract balance'')
      else if \<not> recipient \<noteq> 0 then Inl (Revert ''Invalid recipient'')
      else
        (case send_value recipient amount accepted (s\<lparr> entered := True \<rparr>) of
           None \<Rightarrow> Inl (Revert ''Transfer failed'')
         | Some s2 \<Rightarrow>
             Inr ((emit (FundsWithdrawn msg_sender recipient amount) s2)\<lparr> entered := False \<rparr>)))"

definition pause :: "address \<Rightarrow> state \<Rightarrow> error + state" where
  "pause msg_sender s =
     (if \<not> hasRole s ADMIN_ROLE msg_sender
      then Inl (AccessControlUnauthorizedAccount msg_sender ADMIN_ROLE)
      else if paused s then Inl EnforcedPause
      else Inr (emit (Paused msg_sender) (s\<lparr> paused := True \<rparr>)))"

definition unpause :: "address \<Rightarrow> state \<Rightarrow> error + state" where
  "unpause msg_sender s =
     (if \<not> hasRole s ADMIN_ROLE msg_sender
      then Inl (AccessControlUnauthorizedAccount msg_sender ADMIN_ROLE)
      else if \<not> paused s then Inl ExpectedPause
      else Inr (emit (Unpaused msg_sender) (s\<lparr> paused := False \<rparr>)))"

text \<open>\<^verbatim>\<open>receive\<close> and \<^verbatim>\<open>fallback\<close> accept any value.\<close>

definition receive :: "nat \<Rightarrow> state \<Rightarrow> error + state" where
  "receive msg_value s = Inr (s\<lparr> balance := balance s + msg_value \<rparr>)"

subsection \<open>Transactions and reachable storage\<close>

text \<open>
  One constructor for each state-changing entry point of the contract, with the
  arguments of the call; for the three entry points that transfer value out, also
  whether the recipient accepts. A transaction is a caller, a block time and a call.
  The upgrade entry point, which replaces this logic by another, is not part of it.
\<close>

datatype call =
    Initialize address
  | RegisterOfficer address string string
  | DeactivateOfficer address
  | LogViolation string uint32 string address
  | PayFine bytes32 nat bool
  | SubmitAppeal bytes32 string
  | ResolveAppeal bytes32 bool string
  | ClaimRefund bool
  | UpdateOffense uint32 nat string bool
  | WithdrawFunds address nat bool
  | Pause
  | Unpause
  | GrantRole Role address
  | RevokeRole Role address
  | RenounceRole Role address
  | Receive nat

fun exec :: "(bytes \<Rightarrow> bytes32) \<Rightarrow> address \<Rightarrow> nat \<Rightarrow> call \<Rightarrow> state \<Rightarrow> error + state" where
  "exec k sender now (Initialize admin) s = initialize sender admin s"
| "exec k sender now (RegisterOfficer officer nm badge) s =
     registerOfficer sender now officer nm badge s"
| "exec k sender now (DeactivateOfficer officer) s = deactivateOfficer sender officer s"
| "exec k sender now (LogViolation vehicle code evidence driver) s =
     (case logViolation k sender now vehicle code evidence driver s of
        Inl e \<Rightarrow> Inl e
      | Inr (vid, s') \<Rightarrow> Inr s')"
| "exec k sender now (PayFine vid msg_value accepted) s = payFine sender msg_value accepted vid s"
| "exec k sender now (SubmitAppeal vid reason) s = submitAppeal sender now vid reason s"
| "exec k sender now (ResolveAppeal vid approve text) s = resolveAppeal sender vid approve text s"
| "exec k sender now (ClaimRefund accepted) s = claimRefund sender accepted s"
| "exec k sender now (UpdateOffense code amountKES nm active) s =
     updateOffense sender code amountKES nm active s"
| "exec k sender now (WithdrawFunds recipient amount accepted) s =
     withdrawFunds sender accepted recipient amount s"
| "exec k sender now Pause s = pause sender s"
| "exec k sender now Unpause s = unpause sender s"
| "exec k sender now (GrantRole role account) s = grantRole sender role account s"
| "exec k sender now (RevokeRole role account) s = revokeRole sender role account s"
| "exec k sender now (RenounceRole role confirmation) s = renounceRole sender role confirmation s"
| "exec k sender now (Receive msg_value) s = receive msg_value s"

text \<open>A sequence of transactions; it stops at the first one that reverts.\<close>

fun run :: "(bytes \<Rightarrow> bytes32) \<Rightarrow> (address \<times> nat \<times> call) list \<Rightarrow> state \<Rightarrow> error + state" where
  "run k [] s = Inr s"
| "run k ((sender, now, c) # txs) s =
     (case exec k sender now c s of Inl e \<Rightarrow> Inl e | Inr s' \<Rightarrow> run k txs s')"

text \<open>
  The storage the contract can be in: that of the fresh deployment, and whatever a
  transaction that does not revert makes of a reachable storage.
\<close>

inductive reachable :: "(bytes \<Rightarrow> bytes32) \<Rightarrow> state \<Rightarrow> bool" for k where
  reachable_deployed: "reachable k deployed"
| reachable_step: "reachable k s \<Longrightarrow> exec k sender now c s = Inr s' \<Longrightarrow> reachable k s'"

subsection \<open>Properties of the storage\<close>

text \<open>
  Invariant I2 of the data model: a violation with a nonzero paid amount is Paid,
  Appealed or Refunded.
\<close>

definition I2 :: "state \<Rightarrow> bool" where
  "I2 s = (\<forall>vid. paidAmount (violations s vid) > 0 \<longrightarrow>
             status (violations s vid) \<in> {Paid, Appealed, Refunded})"

text \<open>
  The refund-queued entries of the event log that belong to one violation: the contract
  emits \<^verbatim>\<open>FineRefunded\<close> in the branch that credits \<^verbatim>\<open>pendingRefunds\<close>, and
  nowhere else.
\<close>

fun is_credit :: "bytes32 \<Rightarrow> Event \<Rightarrow> bool" where
  "is_credit vid (FineRefunded v to amount) = (v = vid)"
| "is_credit vid e = False"

definition credits :: "state \<Rightarrow> bytes32 \<Rightarrow> Event list" where
  "credits s vid = filter (is_credit vid) (events s)"

text \<open>
  What holds between the storage before and after an entry point that writes neither
  violations nor appeals, credits no refund and collects no fine.
\<close>

definition quiet :: "state \<Rightarrow> state \<Rightarrow> bool" where
  "quiet s s' = (violations s' = violations s \<and> appeals s' = appeals s
     \<and> (\<forall>vid. credits s' vid = credits s vid)
     \<and> (\<forall>a. pendingRefunds s' a \<le> pendingRefunds s a)
     \<and> totalFinesPaid s' = totalFinesPaid s \<and> totalFinesRefunded s' = totalFinesRefunded s
     \<and> entered s' = entered s)"

text \<open>
  The invariant behind "credited at most once": a violation has at most one refund entry
  in the log, every such entry carries a positive amount, and a violation that has one
  has its appeal resolved (which closes the appeal slot for good).
\<close>

definition credit_inv :: "state \<Rightarrow> bool" where
  "credit_inv s = (\<forall>vid. length (credits s vid) \<le> 1
     \<and> (credits s vid \<noteq> [] \<longrightarrow> resolved (appeals s vid))
     \<and> (\<forall>e \<in> set (credits s vid). \<exists>to amount. e = FineRefunded vid to amount \<and> amount > 0))"

text \<open>
  A transaction credits the refund queue on account of a violation when it resolves the
  appeal of that violation and leaves the pending refund of the violation's payer larger
  than it was. \<open>credit_steps\<close> counts such transactions along a sequence of
  transactions, in which one that reverts changes nothing and is passed over.
\<close>

fun resolves :: "call \<Rightarrow> bytes32 \<Rightarrow> bool" where
  "resolves (ResolveAppeal v approve rtext) vid = (v = vid)"
| "resolves c vid = False"

definition is_credit_step :: "state \<Rightarrow> call \<Rightarrow> state \<Rightarrow> bytes32 \<Rightarrow> bool" where
  "is_credit_step s c s' vid =
     (resolves c vid
      \<and> pendingRefunds s' (paidBy (violations s vid))
          > pendingRefunds s (paidBy (violations s vid)))"

fun credit_steps ::
  "(bytes \<Rightarrow> bytes32) \<Rightarrow> (address \<times> nat \<times> call) list \<Rightarrow> state \<Rightarrow> bytes32 \<Rightarrow> nat" where
  "credit_steps k [] s vid = 0"
| "credit_steps k ((sender, now, c) # txs) s vid =
     (case exec k sender now c s of
        Inl e \<Rightarrow> credit_steps k txs s vid
      | Inr s' \<Rightarrow> (if is_credit_step s c s' vid then 1 else 0) + credit_steps k txs s' vid)"

text \<open>
  The bookkeeping invariant of a reachable storage. No guarded call is in progress; a
  violation that has left the Unpaid status exists; an Unpaid violation has nothing paid;
  the total collected fits a \<^verbatim>\<open>uint256\<close>; and the fines held (the paid amounts of
  any finitely many violations that are Paid or Appealed), together with either the
  pending refunds of any finitely many principals or the total refunded, never exceed the
  total collected.
\<close>

definition held :: "state \<Rightarrow> bytes32 set \<Rightarrow> bool" where
  "held s V = (finite V \<and> (\<forall>v \<in> V. status (violations s v) \<in> {Paid, Appealed}))"

definition held_sum :: "state \<Rightarrow> bytes32 set \<Rightarrow> nat" where
  "held_sum s V = (\<Sum>v \<in> V. paidAmount (violations s v))"

definition funds_inv :: "state \<Rightarrow> bool" where
  "funds_inv s =
     (\<not> entered s
      \<and> (\<forall>v. status (violations s v) \<noteq> Unpaid \<longrightarrow> violationExists s v)
      \<and> (\<forall>v. status (violations s v) = Unpaid \<longrightarrow> paidAmount (violations s v) = 0)
      \<and> totalFinesPaid s \<le> uint256_max
      \<and> (\<forall>V A. held s V \<and> finite A \<longrightarrow>
            held_sum s V + (\<Sum>a \<in> A. pendingRefunds s a) \<le> totalFinesPaid s)
      \<and> (\<forall>V. held s V \<longrightarrow> held_sum s V + totalFinesRefunded s \<le> totalFinesPaid s))"

subsection \<open>A concrete run\<close>

text \<open>
  The run of the repository's simulation script: the administrator 1 initialises the
  ledger, registers officer 2 and makes 4 a judge; the officer logs a violation of
  offense 4 for vehicle KZZ 999Z with driver 3; the fine is paid, appealed, refunded and
  claimed. The hash used in concrete runs is a polynomial hash of the packed bytes.
\<close>

definition poly_hash :: "bytes \<Rightarrow> bytes32" where
  "poly_hash bs = foldl (\<lambda>h b. h * 31 + ucast b) 0 bs"

definition sim_setup :: "(address \<times> nat \<times> call) list" where
  "sim_setup =
     [(1, 1700000000, Initialize 1),
      (1, 1700000001, RegisterOfficer 2 ''Jane Doe'' ''BADGE-999''),
      (1, 1700000002, GrantRole JUDGE_ROLE 4)]"

definition sim_log :: "address \<times> nat \<times> call" where
  "sim_log = (2, 1700000003, LogViolation ''KZZ 999Z'' 4 ''QmHash123'' 3)"

definition sim_vid :: bytes32 where
  "sim_vid = poly_hash (abi_encodePacked ''KZZ 999Z'' 2 1700000003 4)"

definition sim_fine :: nat where
  "sim_fine = 10000 * 10 ^ 15"

definition sim_pay :: "address \<times> nat \<times> call" where
  "sim_pay = (3, 1700000004, PayFine sim_vid sim_fine True)"

definition sim_appeal :: "address \<times> nat \<times> call" where
  "sim_appeal = (3, 1700000005, SubmitAppeal sim_vid ''I was rushing to the hospital.'')"

definition sim_approve :: "address \<times> nat \<times> call" where
  "sim_approve = (4, 1700000006, ResolveAppeal sim_vid True ''Medical emergency verified.'')"

definition sim_reject :: "address \<times> nat \<times> call" where
  "sim_reject = (4, 1700000006, ResolveAppeal sim_vid False ''No emergency on record.'')"

definition sim_claim :: "address \<times> nat \<times> call" where
  "sim_claim = (3, 1700000007, ClaimRefund True)"

text \<open>
  Further transactions for concrete runs: a payment in the block of the logging, a pause
  by the administrator, and \<open>n\<close> loggings by officer 2 at successive seconds of day
  19676 (which starts at second 1700006400).
\<close>

definition sim_pay_same_block :: "address \<times> nat \<times> call" where
  "sim_pay_same_block = (3, 1700000003, PayFine sim_vid sim_fine True)"

definition sim_pause :: "address \<times> nat \<times> call" where
  "sim_pause = (1, 1700000005, Pause)"

definition sim_logs :: "nat \<Rightarrow> (address \<times> nat \<times> call) list" where
  "sim_logs n =
     map (\<lambda>i. (2, 1700006400 + i, LogViolation ''KZZ 999Z'' 4 ''QmHash123'' 3)) [0 ..< n]"

text \<open>
  The number of violations an officer has logged on a given day, as the Officer record
  counts them.
\<close>

definition logged_on :: "state \<Rightarrow> address \<Rightarrow> nat \<Rightarrow> nat" where
  "logged_on s officer day =
     (if lastViolationDate (officers s officer) = day
      then dailyViolationCount (officers s officer) else 0)"

text \<open>The storage after a run from the fresh deployment (the deployment itself if it reverts).\<close>

definition after :: "(address \<times> nat \<times> call) list \<Rightarrow> state" where
  "after txs = (case run poly_hash txs deployed of Inr s \<Rightarrow> s | Inl e \<Rightarrow> deployed)"

section \<open>Verification\<close>

subsection \<open>Unfolding and evaluation\<close>

lemmas op_defs = initialize_def registerOfficer_def deactivateOfficer_def logViolation_def
  payFine_def submitAppeal_def resolveAppeal_def claimRefund_def claimRefund_effects_def
  updateOffense_def withdrawFunds_def pause_def unpause_def receive_def grantRole_def
  revokeRole_def renounceRole_def internal_grantRole_def internal_revokeRole_def
  internal_initializeOffenses_def hasRole_def getRoleAdmin_def emit_def send_value_def
  violationExists_def validAddress_def validString_def rateLimited_def

lemmas const_defs = MAX_VIOLATIONS_PER_DAY_def MAX_APPEALS_PER_VIOLATION_def one_day_def
  APPEAL_COOLDOWN_def KES_TO_WEI_RATE_def MAX_STRING_LENGTH_def MAX_VEHICLE_ID_LENGTH_def
  MAX_BADGE_LENGTH_def uint256_max_def

lemmas zero_defs = deployed_def zero_Officer_def zero_Offense_def zero_Violation_def
  zero_Appeal_def

lemmas sim_defs = sim_setup_def sim_log_def sim_fine_def sim_pay_def sim_appeal_def
  sim_approve_def sim_reject_def sim_claim_def sim_pay_same_block_def sim_pause_def after_def

lemmas eval_defs = sim_defs op_defs const_defs zero_defs Let_def

lemma run_append:
  "run k (xs @ ys) s = (case run k xs s of Inl e \<Rightarrow> Inl e | Inr s' \<Rightarrow> run k ys s')"
  by (induction xs arbitrary: s) (auto split: sum.splits)

lemma reachable_run: "reachable k s \<Longrightarrow> run k txs s = Inr s' \<Longrightarrow> reachable k s'"
proof (induction txs arbitrary: s)
  case Nil
  then show ?case by simp
next
  case (Cons tx txs)
  obtain sender now c where tx: "tx = (sender, now, c)" by (cases tx)
  from Cons.prems(2) tx obtain s1 where
    s1: "exec k sender now c s = Inr s1" and rest: "run k txs s1 = Inr s'"
    by (auto split: sum.splits)
  from Cons.prems(1) s1 have "reachable k s1" by (rule reachable_step)
  with rest show ?case by (rule Cons.IH[rotated])
qed

lemma run_snoc:
  "run k xs s = Inr s1 \<Longrightarrow> exec k sender now c s1 = Inr s2
     \<Longrightarrow> run k (xs @ [(sender, now, c)]) s = Inr s2"
  by (simp add: run_append)

lemma sim_vid_fold: "poly_hash (abi_encodePacked ''KZZ 999Z'' 2 1700000003 4) = sim_vid"
  by (simp add: sim_vid_def)

subsection \<open>The fine amount\<close>

text \<open>
  C9. Whenever \<^verbatim>\<open>logViolation\<close> succeeds, the fine stored in the new violation is
  the catalog amount of the offense (in KES) times the constant \<^verbatim>\<open>KES_TO_WEI_RATE\<close>,
  which is \<open>10 ^ 15\<close>; the product is the exact one of the natural numbers, and it fits
  a \<^verbatim>\<open>uint256\<close> (the checked multiplication would have reverted otherwise).
\<close>

theorem logViolation_fine_amount:
  assumes "logViolation k sender now vehicle code evidence driver s = Inr (vid, s')"
  shows "fineAmount (violations s' vid) = fineAmountKES (offenses s code) * KES_TO_WEI_RATE
     \<and> KES_TO_WEI_RATE = 10 ^ 15
     \<and> fineAmount (violations s' vid) \<le> uint256_max"
  using assms
  by (auto simp: logViolation_def emit_def Let_def KES_TO_WEI_RATE_def
           split: if_splits option.splits)

theorem logViolation_fine_amount_witness:
  "\<exists>s'. logViolation poly_hash 2 1700000003 ''KZZ 999Z'' 4 ''QmHash123'' 3 (after sim_setup)
          = Inr (sim_vid, s')
        \<and> fineAmountKES (offenses (after sim_setup) 4) = 10000
        \<and> fineAmount (violations s' sim_vid) = 10000 * 10 ^ 15"
proof -
  obtain s' where h:
    "logViolation poly_hash 2 1700000003 ''KZZ 999Z'' 4 ''QmHash123'' 3 (after sim_setup)
       = Inr (sim_vid, s')"
    by (simp add: eval_defs sim_vid_fold)
  have kes: "fineAmountKES (offenses (after sim_setup) 4) = 10000"
    by (simp add: eval_defs)
  from logViolation_fine_amount[OF h] kes
  have "fineAmount (violations s' sim_vid) = 10000 * 10 ^ 15"
    by (simp add: KES_TO_WEI_RATE_def)
  with h kes show ?thesis by blast
qed

subsection \<open>Paying after a rejected appeal\<close>

text \<open>
  C3. The ledger does not let a fine be paid after the appeal of an unpaid violation was
  rejected: \<^verbatim>\<open>resolveAppeal\<close> with \<^verbatim>\<open>approve = false\<close> on a violation with nothing
  paid leaves it Rejected, and every later \<^verbatim>\<open>payFine\<close> on it, whoever pays and
  whatever the payment, reverts with "Violation is not unpaid".
\<close>

theorem rejected_violation_cannot_be_paid:
  assumes "resolveAppeal judge vid False text s = Inr s1"
    and "paidAmount (violations s vid) = 0" and "\<not> entered s"
  shows "status (violations s1 vid) = Rejected
     \<and> payFine payer msg_value accepted vid s1 = Inl (Revert ''Violation is not unpaid'')"
  using assms
  by (auto simp: resolveAppeal_def payFine_def violationExists_def emit_def Let_def
           split: if_splits)

lemma sim_rejected_facts:
  "\<exists>s s1. run poly_hash (sim_setup @ [sim_log, sim_appeal]) deployed = Inr s
     \<and> resolveAppeal 4 sim_vid False ''No emergency on record.'' s = Inr s1
     \<and> paidAmount (violations s sim_vid) = 0 \<and> \<not> entered s
     \<and> fineAmount (violations s1 sim_vid) = sim_fine"
  by (simp add: eval_defs sim_vid_def)

theorem rejected_violation_cannot_be_paid_witness:
  "\<exists>s1. run poly_hash (sim_setup @ [sim_log, sim_appeal, sim_reject]) deployed = Inr s1
     \<and> status (violations s1 sim_vid) = Rejected
     \<and> fineAmount (violations s1 sim_vid) = sim_fine
     \<and> payFine 3 sim_fine True sim_vid s1 = Inl (Revert ''Violation is not unpaid'')"
proof -
  from sim_rejected_facts obtain s s1 where
    run: "run poly_hash (sim_setup @ [sim_log, sim_appeal]) deployed = Inr s"
    and res: "resolveAppeal 4 sim_vid False ''No emergency on record.'' s = Inr s1"
    and p: "paidAmount (violations s sim_vid) = 0" and e: "\<not> entered s"
    and f: "fineAmount (violations s1 sim_vid) = sim_fine"
    by blast
  have "exec poly_hash 4 1700000006
          (ResolveAppeal sim_vid False ''No emergency on record.'') s = Inr s1"
    using res by simp
  from run_snoc[OF run this]
  have run1: "run poly_hash (sim_setup @ [sim_log, sim_appeal, sim_reject]) deployed = Inr s1"
    by (simp add: sim_reject_def)
  from rejected_violation_cannot_be_paid[OF res p e, of 3 sim_fine True] f run1
  show ?thesis by blast
qed

subsection \<open>Claiming a refund\<close>

text \<open>
  C6. \<^verbatim>\<open>claimRefund\<close> fails when the caller's pending refund is zero (with "No pending
  refunds" unless the guard or the pause answers first). When it succeeds, the balance
  was positive; the storage the outbound transfer is made from already holds a zero
  balance for the caller and has the re-entry guard set, so that a \<^verbatim>\<open>claimRefund\<close>
  started from that storage is refused; afterwards the caller's balance is exactly zero,
  the other balances are untouched, exactly one transfer, of the amount read, to the
  caller, has been added to the transfers made, and \<^verbatim>\<open>claimRefund\<close> called again by
  the same caller reverts with "No pending refunds".
\<close>

theorem claimRefund_semantics:
  "(pendingRefunds s claimant = 0 \<longrightarrow> isl (claimRefund claimant accepted s))
   \<and> (pendingRefunds s claimant = 0 \<and> \<not> entered s \<and> \<not> paused s \<longrightarrow>
        claimRefund claimant accepted s = Inl (Revert ''No pending refunds''))
   \<and> (\<forall>s'. claimRefund claimant accepted s = Inr s' \<longrightarrow>
        pendingRefunds s claimant > 0
        \<and> (\<exists>s1 s2. claimRefund_effects claimant s = Inr (pendingRefunds s claimant, s1)
              \<and> pendingRefunds s1 claimant = 0 \<and> entered s1
              \<and> (\<forall>anyone acc. claimRefund anyone acc s1 = Inl ReentrancyGuardReentrantCall)
              \<and> send_value claimant (pendingRefunds s claimant) accepted s1 = Some s2
              \<and> s' = (emit (RefundClaimed claimant (pendingRefunds s claimant)) s2)
                       \<lparr> entered := False \<rparr>)
        \<and> pendingRefunds s' claimant = 0
        \<and> (\<forall>other. other \<noteq> claimant \<longrightarrow> pendingRefunds s' other = pendingRefunds s other)
        \<and> sent s' = sent s @ [(claimant, pendingRefunds s claimant)]
        \<and> balance s' + pendingRefunds s claimant = balance s
        \<and> (\<forall>acc. claimRefund claimant acc s' = Inl (Revert ''No pending refunds'')))"
  by (auto simp: claimRefund_def claimRefund_effects_def send_value_def emit_def Let_def
           split: if_splits option.splits)

lemma sim_refunded_facts:
  "\<exists>s s'. run poly_hash (sim_setup @ [sim_log, sim_pay, sim_appeal, sim_approve]) deployed
            = Inr s
     \<and> pendingRefunds s 3 = sim_fine \<and> sent s = []
     \<and> claimRefund 3 True s = Inr s'"
  by (simp add: eval_defs sim_vid_def)

theorem claimRefund_semantics_witness:
  "\<exists>s s'. run poly_hash (sim_setup @ [sim_log, sim_pay, sim_appeal, sim_approve]) deployed
            = Inr s
     \<and> pendingRefunds s 3 = sim_fine
     \<and> claimRefund 3 True s = Inr s'
     \<and> pendingRefunds s' 3 = 0
     \<and> sent s' = [(3, sim_fine)]
     \<and> claimRefund 3 True s' = Inl (Revert ''No pending refunds'')"
proof -
  from sim_refunded_facts obtain s s' where
    run: "run poly_hash (sim_setup @ [sim_log, sim_pay, sim_appeal, sim_approve]) deployed
            = Inr s"
    and p: "pendingRefunds s 3 = sim_fine" and t: "sent s = []"
    and c: "claimRefund 3 True s = Inr s'"
    by blast
  from claimRefund_semantics[of s 3 True] c
  have "pendingRefunds s' 3 = 0"
    and "sent s' = sent s @ [(3, pendingRefunds s 3)]"
    and "claimRefund 3 True s' = Inl (Revert ''No pending refunds'')"
    by blast+
  with run p t c show ?thesis by auto
qed

subsection \<open>Who may pay\<close>

text \<open>
  C10. \<^verbatim>\<open>payFine\<close> does not look at who calls it. For a violation that exists and is
  Unpaid, on a ledger that is not paused, any caller whose payment covers the fine pays
  it (provided the caller accepts the change when the payment exceeds the fine, and the
  total collected stays within \<^verbatim>\<open>uint256\<close>): the violation becomes Paid and the
  caller is recorded as the payer. An approved appeal of a paid violation credits the
  refund to the recorded payer and to nobody else; in particular, when the driver then
  appeals and a judge approves, the refund of the fine goes to the caller who paid.
\<close>

theorem payFine_any_payer:
  assumes "violationExists s vid" and "status (violations s vid) = Unpaid"
    and "\<not> paused s" and "\<not> entered s"
    and "msg_value \<ge> fineAmount (violations s vid)"
    and "totalFinesPaid s + fineAmount (violations s vid) \<le> uint256_max"
    and "msg_value > fineAmount (violations s vid) \<longrightarrow> accepted"
  shows "\<exists>s1. payFine payer msg_value accepted vid s = Inr s1
     \<and> status (violations s1 vid) = Paid \<and> paidBy (violations s1 vid) = payer
     \<and> paidAmount (violations s1 vid) = fineAmount (violations s vid)
     \<and> (\<forall>judge v rtext t t'.
           resolveAppeal judge v True rtext t = Inr t' \<and> paidAmount (violations t v) > 0 \<longrightarrow>
           pendingRefunds t' = (pendingRefunds t)
             (paidBy (violations t v) :=
                pendingRefunds t (paidBy (violations t v)) + paidAmount (violations t v)))
     \<and> (\<forall>driver now reason judge rtext s2 s3.
           submitAppeal driver now vid reason s1 = Inr s2
           \<and> resolveAppeal judge vid True rtext s2 = Inr s3
           \<and> fineAmount (violations s vid) > 0 \<longrightarrow>
           status (violations s3 vid) = Refunded
           \<and> pendingRefunds s3 = (pendingRefunds s)
                (payer := pendingRefunds s payer + fineAmount (violations s vid)))"
proof -
  let ?v = "violations s vid"
  have "\<exists>s1. payFine payer msg_value accepted vid s = Inr s1
      \<and> status (violations s1 vid) = Paid \<and> paidBy (violations s1 vid) = payer
      \<and> paidAmount (violations s1 vid) = fineAmount ?v
      \<and> pendingRefunds s1 = pendingRefunds s"
    using assms
    by (auto simp: payFine_def violationExists_def send_value_def emit_def Let_def)
  then obtain s1 where pay: "payFine payer msg_value accepted vid s = Inr s1"
    and st: "status (violations s1 vid) = Paid" and pb: "paidBy (violations s1 vid) = payer"
    and pa: "paidAmount (violations s1 vid) = fineAmount ?v"
    and pr: "pendingRefunds s1 = pendingRefunds s"
    by blast
  have credit: "pendingRefunds t' = (pendingRefunds t)
             (paidBy (violations t v) :=
                pendingRefunds t (paidBy (violations t v)) + paidAmount (violations t v))"
    if "resolveAppeal judge v True rtext t = Inr t'" and "paidAmount (violations t v) > 0"
    for judge v rtext t t'
    using that by (auto simp: resolveAppeal_def emit_def Let_def split: if_splits)
  have chain: "status (violations s3 vid) = Refunded
           \<and> pendingRefunds s3 = (pendingRefunds s)
                (payer := pendingRefunds s payer + fineAmount ?v)"
    if a: "submitAppeal driver now vid reason s1 = Inr s2"
      and r: "resolveAppeal judge vid True rtext s2 = Inr s3"
      and f: "fineAmount ?v > 0"
    for driver now reason judge rtext s2 s3
  proof -
    from a have keep: "paidBy (violations s2 vid) = paidBy (violations s1 vid)"
      "paidAmount (violations s2 vid) = paidAmount (violations s1 vid)"
      "pendingRefunds s2 = pendingRefunds s1"
      by (auto simp: submitAppeal_def emit_def Let_def split: if_splits)
    with pa f have pos: "paidAmount (violations s2 vid) > 0" by simp
    from credit[OF r pos] keep pb pa pr
    have "pendingRefunds s3 = (pendingRefunds s)
                (payer := pendingRefunds s payer + fineAmount ?v)"
      by simp
    moreover from r pos have "status (violations s3 vid) = Refunded"
      by (auto simp: resolveAppeal_def emit_def Let_def split: if_splits)
    ultimately show ?thesis by simp
  qed
  from pay st pb pa credit chain show ?thesis by blast
qed

lemma sim_stranger_facts:
  "\<exists>s s1 s2 s3. run poly_hash (sim_setup @ [sim_log]) deployed = Inr s
     \<and> violationExists s sim_vid \<and> status (violations s sim_vid) = Unpaid
     \<and> \<not> paused s \<and> \<not> entered s \<and> fineAmount (violations s sim_vid) = sim_fine
     \<and> driverId (violations s sim_vid) = 3
     \<and> totalFinesPaid s = 0 \<and> pendingRefunds s = (\<lambda>_. 0)
     \<and> payFine 5 (sim_fine + 7) True sim_vid s = Inr s1
     \<and> submitAppeal 3 1700000005 sim_vid ''I was rushing to the hospital.'' s1 = Inr s2
     \<and> resolveAppeal 4 sim_vid True ''Medical emergency verified.'' s2 = Inr s3"
  by (simp add: eval_defs sim_vid_def)

theorem payFine_any_payer_witness:
  "\<exists>s s1 s2 s3. run poly_hash (sim_setup @ [sim_log]) deployed = Inr s
     \<and> driverId (violations s sim_vid) = 3
     \<and> payFine 5 (sim_fine + 7) True sim_vid s = Inr s1
     \<and> paidBy (violations s1 sim_vid) = 5
     \<and> submitAppeal 3 1700000005 sim_vid ''I was rushing to the hospital.'' s1 = Inr s2
     \<and> resolveAppeal 4 sim_vid True ''Medical emergency verified.'' s2 = Inr s3
     \<and> pendingRefunds s3 5 = sim_fine \<and> pendingRefunds s3 3 = 0"
proof -
  from sim_stranger_facts obtain s s1 s2 s3 where
    run: "run poly_hash (sim_setup @ [sim_log]) deployed = Inr s"
    and h1: "violationExists s sim_vid" and h2: "status (violations s sim_vid) = Unpaid"
    and h3: "\<not> paused s" and h4: "\<not> entered s"
    and f: "fineAmount (violations s sim_vid) = sim_fine"
    and d: "driverId (violations s sim_vid) = 3"
    and tot: "totalFinesPaid s = 0" and pr: "pendingRefunds s = (\<lambda>_. 0)"
    and pay: "payFine 5 (sim_fine + 7) True sim_vid s = Inr s1"
    and app: "submitAppeal 3 1700000005 sim_vid ''I was rushing to the hospital.'' s1 = Inr s2"
    and res: "resolveAppeal 4 sim_vid True ''Medical emergency verified.'' s2 = Inr s3"
    by blast
  have h5: "sim_fine + 7 \<ge> fineAmount (violations s sim_vid)" by (simp add: f)
  have h6: "totalFinesPaid s + fineAmount (violations s sim_vid) \<le> uint256_max"
    by (simp add: f tot sim_fine_def uint256_max_def)
  have h7: "sim_fine + 7 > fineAmount (violations s sim_vid) \<longrightarrow> True" by simp
  have pos: "fineAmount (violations s sim_vid) > 0" by (simp add: f sim_fine_def)
  from payFine_any_payer[OF h1 h2 h3 h4 h5 h6 h7, of 5] pay app res pos
  have "paidBy (violations s1 sim_vid) = 5"
    and "pendingRefunds s3 = (pendingRefunds s)
           (5 := pendingRefunds s 5 + fineAmount (violations s sim_vid))"
    by auto
  then have "paidBy (violations s1 sim_vid) = 5" and "pendingRefunds s3 5 = sim_fine"
    and "pendingRefunds s3 3 = 0"
    by (simp_all add: pr f)
  with run d pay app res show ?thesis by blast
qed

subsection \<open>What each entry point changes\<close>

lemma credits_emit:
  "credits (emit e s) vid = credits s vid @ (if is_credit vid e then [e] else [])"
  by (simp add: credits_def emit_def)

lemma credits_events_eq: "events s' = events s \<Longrightarrow> credits s' vid = credits s vid"
  by (simp add: credits_def)

lemma emit_fields [simp]:
  "violations (emit e s) = violations s"
  "appeals (emit e s) = appeals s"
  "pendingRefunds (emit e s) = pendingRefunds s"
  "totalFinesPaid (emit e s) = totalFinesPaid s"
  "totalFinesRefunded (emit e s) = totalFinesRefunded s"
  "entered (emit e s) = entered s"
  by (simp_all add: emit_def)

lemma internal_grantRole_fields [simp]:
  "violations (internal_grantRole m r a s) = violations s"
  "appeals (internal_grantRole m r a s) = appeals s"
  "pendingRefunds (internal_grantRole m r a s) = pendingRefunds s"
  "totalFinesPaid (internal_grantRole m r a s) = totalFinesPaid s"
  "totalFinesRefunded (internal_grantRole m r a s) = totalFinesRefunded s"
  "entered (internal_grantRole m r a s) = entered s"
  "filter (is_credit vid) (events (internal_grantRole m r a s)) = filter (is_credit vid) (events s)"
  by (simp_all add: internal_grantRole_def emit_def)

lemma internal_revokeRole_fields [simp]:
  "violations (internal_revokeRole m r a s) = violations s"
  "appeals (internal_revokeRole m r a s) = appeals s"
  "pendingRefunds (internal_revokeRole m r a s) = pendingRefunds s"
  "totalFinesPaid (internal_revokeRole m r a s) = totalFinesPaid s"
  "totalFinesRefunded (internal_revokeRole m r a s) = totalFinesRefunded s"
  "entered (internal_revokeRole m r a s) = entered s"
  "filter (is_credit vid) (events (internal_revokeRole m r a s)) = filter (is_credit vid) (events s)"
  by (simp_all add: internal_revokeRole_def emit_def)

lemma quiet_initialize:
  "initialize m a s = Inr s' \<Longrightarrow> quiet s s'"
  by (auto simp: initialize_def quiet_def Let_def credits_def emit_def
        internal_initializeOffenses_def split: if_splits)

lemma quiet_registerOfficer:
  "registerOfficer m now officer nm badge s = Inr s' \<Longrightarrow> quiet s s'"
  by (auto simp: registerOfficer_def quiet_def credits_def emit_def
           split: if_splits option.splits)

lemma quiet_deactivateOfficer:
  "deactivateOfficer m officer s = Inr s' \<Longrightarrow> quiet s s'"
  by (auto simp: deactivateOfficer_def quiet_def credits_def emit_def split: if_splits)

lemma quiet_claimRefund:
  "claimRefund m accepted s = Inr s' \<Longrightarrow> quiet s s'"
  by (auto simp: claimRefund_def claimRefund_effects_def send_value_def quiet_def credits_def
        emit_def Let_def split: if_splits option.splits)

lemma quiet_updateOffense:
  "updateOffense m code amountKES nm active s = Inr s' \<Longrightarrow> quiet s s'"
  by (auto simp: updateOffense_def quiet_def credits_def emit_def split: if_splits)

lemma quiet_withdrawFunds:
  "withdrawFunds m accepted recipient amount s = Inr s' \<Longrightarrow> quiet s s'"
  by (auto simp: withdrawFunds_def send_value_def quiet_def credits_def emit_def
           split: if_splits option.splits)

lemma quiet_pause: "pause m s = Inr s' \<Longrightarrow> quiet s s'"
  by (auto simp: pause_def quiet_def credits_def emit_def split: if_splits)

lemma quiet_unpause: "unpause m s = Inr s' \<Longrightarrow> quiet s s'"
  by (auto simp: unpause_def quiet_def credits_def emit_def split: if_splits)

lemma quiet_grantRole: "grantRole m role account s = Inr s' \<Longrightarrow> quiet s s'"
  by (auto simp: grantRole_def quiet_def credits_def split: if_splits)

lemma quiet_revokeRole: "revokeRole m role account s = Inr s' \<Longrightarrow> quiet s s'"
  by (auto simp: revokeRole_def quiet_def credits_def split: if_splits)

lemma quiet_renounceRole: "renounceRole m role account s = Inr s' \<Longrightarrow> quiet s s'"
  by (auto simp: renounceRole_def quiet_def credits_def split: if_splits)

lemma quiet_receive: "receive v s = Inr s' \<Longrightarrow> quiet s s'"
  by (auto simp: receive_def quiet_def credits_def)

text \<open>The four entry points that write violations or appeals.\<close>

lemma logViolation_effect:
  assumes "logViolation k m now vehicle code evidence driver s = Inr (vid, s')"
  shows "\<exists>v. violations s' = (violations s)(vid := v) \<and> status v = Unpaid \<and> paidAmount v = 0"
    and "appeals s' = appeals s" and "pendingRefunds s' = pendingRefunds s"
    and "credits s' x = credits s x"
  using assms
  by (auto simp: logViolation_def Let_def credits_def emit_def split: if_splits option.splits)

lemma payFine_effect:
  assumes "payFine m msg_value accepted vid s = Inr s'"
  shows "\<exists>v. violations s' = (violations s)(vid := v) \<and> status v = Paid"
    and "appeals s' = appeals s" and "pendingRefunds s' = pendingRefunds s"
    and "credits s' x = credits s x"
  using assms
  by (auto simp: payFine_def send_value_def Let_def credits_def emit_def
           split: if_splits option.splits)

lemma submitAppeal_effect:
  assumes "submitAppeal m now vid reason s = Inr s'"
  shows "violations s' = (violations s)(vid := (violations s vid)\<lparr> status := Appealed \<rparr>)"
    and "\<not> resolved (appeals s vid)"
    and "resolved (appeals s' x) = resolved (appeals s x)"
    and "pendingRefunds s' = pendingRefunds s"
    and "credits s' x = credits s x"
  using assms
  by (auto simp: submitAppeal_def Let_def credits_def emit_def split: if_splits)

lemma resolveAppeal_effect:
  assumes "resolveAppeal m vid approve rtext s = Inr s'"
  shows "violations s' = (violations s)(vid := (violations s vid)
           \<lparr> status := (if approve
                         then (if paidAmount (violations s vid) > 0 then Refunded else Waived)
                         else (if paidAmount (violations s vid) > 0 then Paid else Rejected)) \<rparr>)"
    and "\<not> resolved (appeals s vid)"
    and "resolved (appeals s' x) = (x = vid \<or> resolved (appeals s x))"
    and "pendingRefunds s' =
           (if approve \<and> paidAmount (violations s vid) > 0
            then (pendingRefunds s)(paidBy (violations s vid) :=
                   pendingRefunds s (paidBy (violations s vid)) + paidAmount (violations s vid))
            else pendingRefunds s)"
    and "events s' = events s @
           (if approve \<and> paidAmount (violations s vid) > 0
            then [FineRefunded vid (paidBy (violations s vid)) (paidAmount (violations s vid))]
            else []) @ [AppealResolved vid approve rtext m]"
  using assms
  by (auto simp: resolveAppeal_def Let_def emit_def split: if_splits)

lemma exec_cases:
  assumes "exec k m now c s = Inr s'"
  obtains (quiet) "quiet s s'"
  | (log) vehicle code evidence driver vid where
      "c = LogViolation vehicle code evidence driver"
      "logViolation k m now vehicle code evidence driver s = Inr (vid, s')"
  | (pay) vid msg_value accepted where
      "c = PayFine vid msg_value accepted" "payFine m msg_value accepted vid s = Inr s'"
  | (appeal) vid reason where
      "c = SubmitAppeal vid reason" "submitAppeal m now vid reason s = Inr s'"
  | (resolve) vid approve rtext where
      "c = ResolveAppeal vid approve rtext" "resolveAppeal m vid approve rtext s = Inr s'"
proof (cases c)
  case (LogViolation vehicle code evidence driver)
  with assms obtain vid where
    "logViolation k m now vehicle code evidence driver s = Inr (vid, s')"
    by (auto split: sum.splits)
  with LogViolation show ?thesis by (rule log)
qed (use assms in \<open>auto dest: quiet_initialize quiet_registerOfficer quiet_deactivateOfficer
       quiet_claimRefund quiet_updateOffense quiet_withdrawFunds quiet_pause quiet_unpause
       quiet_grantRole quiet_revokeRole quiet_renounceRole quiet_receive
       intro: quiet pay appeal resolve\<close>)

subsection \<open>The paid amount and the status\<close>

lemma I2_update:
  assumes "I2 s" and "violations s' = (violations s)(vid := v)"
    and "paidAmount v > 0 \<longrightarrow> status v \<in> {Paid, Appealed, Refunded}"
  shows "I2 s'"
  unfolding I2_def
proof (intro allI impI)
  fix x
  assume pos: "paidAmount (violations s' x) > 0"
  show "status (violations s' x) \<in> {Paid, Appealed, Refunded}"
  proof (cases "x = vid")
    case True
    with assms(2,3) pos show ?thesis by simp
  next
    case False
    with assms(2) pos have "paidAmount (violations s x) > 0" by simp
    with assms(1) have "status (violations s x) \<in> {Paid, Appealed, Refunded}"
      unfolding I2_def by blast
    with False assms(2) show ?thesis by simp
  qed
qed

lemma I2_step:
  assumes inv: "I2 s" and step: "exec k m now c s = Inr s'"
  shows "I2 s'"
  using step
proof (cases rule: exec_cases)
  case quiet
  with inv show ?thesis by (simp add: quiet_def I2_def)
next
  case (log vehicle code evidence driver vid)
  from logViolation_effect(1)[OF log(2)] obtain v where
    "violations s' = (violations s)(vid := v)" and "paidAmount v = 0" by blast
  with inv show ?thesis by (auto intro: I2_update)
next
  case (pay vid msg_value accepted)
  from payFine_effect(1)[OF pay(2)] obtain v where
    "violations s' = (violations s)(vid := v)" and "status v = Paid" by blast
  with inv show ?thesis by (auto intro: I2_update)
next
  case (appeal vid reason)
  from inv submitAppeal_effect(1)[OF appeal(2)] show ?thesis
    by (rule I2_update) simp
next
  case (resolve vid approve rtext)
  from inv resolveAppeal_effect(1)[OF resolve(2)] show ?thesis
    by (rule I2_update) simp
qed

lemma I2_deployed: "I2 deployed"
  by (simp add: I2_def deployed_def zero_Violation_def)

lemma I2_reachable: "reachable k s \<Longrightarrow> I2 s"
  by (induction rule: reachable.induct) (auto intro: I2_deployed I2_step)

text \<open>
  C7. Invariant I2. It holds of the fresh deployment; every entry point that returns
  preserves it, from any storage that satisfies it; so it holds of every reachable
  storage: there, a violation with a nonzero paid amount is Paid, Appealed or Refunded,
  and is not Waived, Rejected or Unpaid.
\<close>

theorem I2_invariant:
  "I2 deployed
   \<and> (\<forall>m now c s s'. I2 s \<and> exec k m now c s = Inr s' \<longrightarrow> I2 s')
   \<and> (\<forall>s vid. reachable k s \<and> paidAmount (violations s vid) > 0 \<longrightarrow>
         status (violations s vid) \<in> {Paid, Appealed, Refunded}
         \<and> status (violations s vid) \<notin> {Waived, Rejected, Unpaid})"
proof -
  have "status (violations s vid) \<in> {Paid, Appealed, Refunded}
         \<and> status (violations s vid) \<notin> {Waived, Rejected, Unpaid}"
    if "reachable k s" and "paidAmount (violations s vid) > 0" for s vid
  proof -
    from I2_reachable[OF that(1)] that(2)
    have "status (violations s vid) \<in> {Paid, Appealed, Refunded}"
      unfolding I2_def by blast
    then show ?thesis by auto
  qed
  with I2_deployed I2_step show ?thesis by blast
qed

lemma sim_paid_facts:
  "\<exists>s. run poly_hash (sim_setup @ [sim_log, sim_pay]) deployed = Inr s
     \<and> paidAmount (violations s sim_vid) = sim_fine \<and> status (violations s sim_vid) = Paid"
  by (simp add: eval_defs sim_vid_def)

theorem I2_invariant_witness:
  "\<exists>s. run poly_hash (sim_setup @ [sim_log, sim_pay]) deployed = Inr s
     \<and> reachable poly_hash s
     \<and> paidAmount (violations s sim_vid) = 10000 * 10 ^ 15
     \<and> status (violations s sim_vid) = Paid
     \<and> status (violations s sim_vid) \<notin> {Waived, Rejected, Unpaid}"
proof -
  from sim_paid_facts obtain s where
    run: "run poly_hash (sim_setup @ [sim_log, sim_pay]) deployed = Inr s"
    and p: "paidAmount (violations s sim_vid) = sim_fine"
    and st: "status (violations s sim_vid) = Paid"
    by blast
  have r: "reachable poly_hash s"
    using reachable_deployed run by (rule reachable_run)
  have pos: "paidAmount (violations s sim_vid) > 0" by (simp add: p sim_fine_def)
  from I2_invariant[of poly_hash] r pos
  have "status (violations s sim_vid) \<notin> {Waived, Rejected, Unpaid}" by blast
  with run r p st show ?thesis by (auto simp: sim_fine_def)
qed

subsection \<open>No double refund credit\<close>

lemma credit_inv_step:
  assumes inv: "credit_inv s" and step: "exec k m now c s = Inr s'"
  shows "credit_inv s'"
  using step
proof (cases rule: exec_cases)
  case quiet
  with inv show ?thesis by (simp add: quiet_def credit_inv_def)
next
  case (log vehicle code evidence driver vid)
  from logViolation_effect(2,4)[OF log(2)] inv show ?thesis by (simp add: credit_inv_def)
next
  case (pay vid msg_value accepted)
  from payFine_effect(2,4)[OF pay(2)] inv show ?thesis by (simp add: credit_inv_def)
next
  case (appeal vid reason)
  from submitAppeal_effect(3,5)[OF appeal(2)] inv show ?thesis by (simp add: credit_inv_def)
next
  case (resolve vid approve rtext)
  note eff = resolveAppeal_effect[OF resolve(2)]
  from eff(2) inv have none: "credits s vid = []" by (auto simp: credit_inv_def)
  have cr: "credits s' x = credits s x @
      (if x = vid \<and> approve \<and> paidAmount (violations s vid) > 0
       then [FineRefunded vid (paidBy (violations s vid)) (paidAmount (violations s vid))]
       else [])" for x
    by (simp add: credits_def eff(5))
  show ?thesis
    unfolding credit_inv_def
  proof (intro allI)
    fix x
    show "length (credits s' x) \<le> 1
       \<and> (credits s' x \<noteq> [] \<longrightarrow> resolved (appeals s' x))
       \<and> (\<forall>e \<in> set (credits s' x). \<exists>to amount. e = FineRefunded x to amount \<and> amount > 0)"
    proof (cases "x = vid")
      case True
      then show ?thesis using none by (simp add: cr eff(3))
    next
      case False
      with inv show ?thesis by (simp add: cr eff(3) credit_inv_def)
    qed
  qed
qed

lemma credit_inv_deployed: "credit_inv deployed"
  by (simp add: credit_inv_def credits_def deployed_def)

lemma credit_inv_reachable: "reachable k s \<Longrightarrow> credit_inv s"
  by (induction rule: reachable.induct) (auto intro: credit_inv_deployed credit_inv_step)

lemma credit_step:
  assumes step: "exec k m now c s = Inr s'"
    and more: "pendingRefunds s' a > pendingRefunds s a"
  shows "\<exists>vid rtext. c = ResolveAppeal vid True rtext
     \<and> a = paidBy (violations s vid) \<and> paidAmount (violations s vid) > 0
     \<and> pendingRefunds s' a = pendingRefunds s a + paidAmount (violations s vid)
     \<and> events s' = events s @
          [FineRefunded vid a (paidAmount (violations s vid)),
           AppealResolved vid True rtext m]"
  using step
proof (cases rule: exec_cases)
  case quiet
  with more show ?thesis by (auto simp: quiet_def not_less[symmetric])
next
  case (log vehicle code evidence driver vid)
  from logViolation_effect(3)[OF log(2)] more show ?thesis by simp
next
  case (pay vid msg_value accepted)
  from payFine_effect(3)[OF pay(2)] more show ?thesis by simp
next
  case (appeal vid reason)
  from submitAppeal_effect(4)[OF appeal(2)] more show ?thesis by simp
next
  case (resolve vid approve rtext)
  note eff = resolveAppeal_effect[OF resolve(2)]
  from eff(4) more have "approve \<and> paidAmount (violations s vid) > 0"
    by (auto split: if_splits)
  with eff(4,5) more resolve(1) show ?thesis by (auto split: if_splits)
qed

lemma credits_step_grow:
  assumes "exec k m now c s = Inr s'"
  shows "\<exists>es. credits s' vid = credits s vid @ es"
  using assms
proof (cases rule: exec_cases)
  case quiet
  then show ?thesis by (simp add: quiet_def)
next
  case (log vehicle code evidence driver v)
  from logViolation_effect(4)[OF log(2)] show ?thesis by simp
next
  case (pay v msg_value accepted)
  from payFine_effect(4)[OF pay(2)] show ?thesis by simp
next
  case (appeal v reason)
  from submitAppeal_effect(5)[OF appeal(2)] show ?thesis by simp
next
  case (resolve v approve rtext)
  from resolveAppeal_effect(5)[OF resolve(2)] show ?thesis by (simp add: credits_def)
qed

lemma credit_step_logged:
  assumes step: "exec k m now c s = Inr s'" and cs: "is_credit_step s c s' vid"
  shows "length (credits s' vid) = Suc (length (credits s vid))"
proof -
  from cs have more: "pendingRefunds s (paidBy (violations s vid))
                        < pendingRefunds s' (paidBy (violations s vid))"
    and tgt: "resolves c vid"
    by (simp_all add: is_credit_step_def)
  from credit_step[OF step more] obtain v rtext where
    c: "c = ResolveAppeal v True rtext"
    and ev: "events s' = events s @
          [FineRefunded v (paidBy (violations s vid)) (paidAmount (violations s v)),
           AppealResolved v True rtext m]"
    by blast
  from tgt c have "v = vid" by simp
  with ev show ?thesis by (simp add: credits_def)
qed

lemma credit_steps_bound:
  "credit_inv s \<Longrightarrow> credit_steps k txs s vid + length (credits s vid) \<le> 1"
proof (induction txs arbitrary: s)
  case Nil
  then show ?case by (simp add: credit_inv_def)
next
  case (Cons tx txs)
  obtain m now c where tx: "tx = (m, now, c)" by (cases tx)
  show ?case
  proof (cases "exec k m now c s")
    case (Inl e)
    with Cons tx show ?thesis by simp
  next
    case (Inr s')
    from credit_inv_step[OF Cons.prems Inr] have inv': "credit_inv s'" .
    from Cons.IH[OF inv'] have ih: "credit_steps k txs s' vid + length (credits s' vid) \<le> 1" .
    show ?thesis
    proof (cases "is_credit_step s c s' vid")
      case True
      from credit_step_logged[OF Inr True] ih tx Inr True show ?thesis by simp
    next
      case False
      from credits_step_grow[OF Inr, of vid] have "length (credits s vid) \<le> length (credits s' vid)"
        by auto
      with ih tx Inr False show ?thesis by simp
    qed
  qed
qed

text \<open>
  C5. Invariant I3. The ledger raises a pending refund in one place only: whenever an
  entry point leaves somebody's pending refund larger, the call was the approval of the
  appeal of a violation whose paid amount was nonzero at that moment, the refund went to
  the payer of that violation and is that paid amount, and it was logged. Along any
  sequence of transactions from the fresh deployment (those that revert are passed over)
  at most one transaction credits the queue on account of a given violation, and the log
  of a reachable storage holds at most one refund entry for it.
\<close>

theorem refund_credited_at_most_once:
  "(\<forall>m now c s s' a. exec k m now c s = Inr s' \<and> pendingRefunds s' a > pendingRefunds s a \<longrightarrow>
      (\<exists>vid rtext. c = ResolveAppeal vid True rtext
         \<and> a = paidBy (violations s vid) \<and> paidAmount (violations s vid) > 0
         \<and> pendingRefunds s' a = pendingRefunds s a + paidAmount (violations s vid)
         \<and> is_credit_step s c s' vid
         \<and> events s' = events s @
              [FineRefunded vid a (paidAmount (violations s vid)),
               AppealResolved vid True rtext m]))
   \<and> (\<forall>txs vid. credit_steps k txs deployed vid \<le> 1)
   \<and> (\<forall>s vid. reachable k s \<longrightarrow> length (credits s vid) \<le> 1)"
proof -
  have a: "\<exists>vid rtext. c = ResolveAppeal vid True rtext
         \<and> a = paidBy (violations s vid) \<and> paidAmount (violations s vid) > 0
         \<and> pendingRefunds s' a = pendingRefunds s a + paidAmount (violations s vid)
         \<and> is_credit_step s c s' vid
         \<and> events s' = events s @
              [FineRefunded vid a (paidAmount (violations s vid)),
               AppealResolved vid True rtext m]"
    if "exec k m now c s = Inr s'" and "pendingRefunds s' a > pendingRefunds s a"
    for m now c s s' a
    using credit_step[OF that] that(2) by (auto simp: is_credit_step_def)
  have b: "credit_steps k txs deployed vid \<le> 1" for txs vid
    using credit_steps_bound[OF credit_inv_deployed, of k txs vid] by simp
  have c: "length (credits s vid) \<le> 1" if "reachable k s" for s vid
    using credit_inv_reachable[OF that] by (simp add: credit_inv_def)
  from a b c show ?thesis by blast
qed

lemma sim_credit_facts:
  "\<exists>s s'. run poly_hash (sim_setup @ [sim_log, sim_pay, sim_appeal]) deployed = Inr s
     \<and> exec poly_hash 4 1700000006
          (ResolveAppeal sim_vid True ''Medical emergency verified.'') s = Inr s'
     \<and> pendingRefunds s 3 = 0 \<and> pendingRefunds s' 3 = sim_fine
     \<and> credits s' sim_vid = [FineRefunded sim_vid 3 sim_fine]
     \<and> resolveAppeal 4 sim_vid True ''Again.'' s' = Inl (Revert ''No pending appeal'')"
  by (simp add: eval_defs sim_vid_def credits_def)

theorem refund_credited_at_most_once_witness:
  "\<exists>s s'. run poly_hash (sim_setup @ [sim_log, sim_pay, sim_appeal]) deployed = Inr s
     \<and> run poly_hash (sim_setup @ [sim_log, sim_pay, sim_appeal, sim_approve]) deployed = Inr s'
     \<and> reachable poly_hash s'
     \<and> pendingRefunds s 3 < pendingRefunds s' 3
     \<and> paidAmount (violations s sim_vid) = pendingRefunds s' 3
     \<and> credits s' sim_vid = [FineRefunded sim_vid 3 (10000 * 10 ^ 15)]
     \<and> length (credits s' sim_vid) \<le> 1
     \<and> resolveAppeal 4 sim_vid True ''Again.'' s' = Inl (Revert ''No pending appeal'')
     \<and> credit_steps poly_hash
          (sim_setup @ [sim_log, sim_pay, sim_appeal, sim_approve, sim_approve]) deployed sim_vid
         \<le> 1"
proof -
  from sim_credit_facts obtain s s' where
    run: "run poly_hash (sim_setup @ [sim_log, sim_pay, sim_appeal]) deployed = Inr s"
    and ex: "exec poly_hash 4 1700000006
          (ResolveAppeal sim_vid True ''Medical emergency verified.'') s = Inr s'"
    and p0: "pendingRefunds s 3 = 0" and p1: "pendingRefunds s' 3 = sim_fine"
    and cr: "credits s' sim_vid = [FineRefunded sim_vid 3 sim_fine]"
    and again: "resolveAppeal 4 sim_vid True ''Again.'' s' = Inl (Revert ''No pending appeal'')"
    by blast
  from run_snoc[OF run ex]
  have run': "run poly_hash (sim_setup @ [sim_log, sim_pay, sim_appeal, sim_approve]) deployed
                = Inr s'"
    by (simp add: sim_approve_def)
  have r: "reachable poly_hash s'"
    using reachable_deployed run' by (rule reachable_run)
  have more: "pendingRefunds s 3 < pendingRefunds s' 3" by (simp add: p0 p1 sim_fine_def)
  note once = refund_credited_at_most_once[of poly_hash]
  from once ex more
  have "pendingRefunds s' 3 = pendingRefunds s 3 + paidAmount (violations s sim_vid)"
    by blast
  then have pa: "paidAmount (violations s sim_vid) = pendingRefunds s' 3" by (simp add: p0)
  from once r have len: "length (credits s' sim_vid) \<le> 1" by blast
  from once have steps: "credit_steps poly_hash
          (sim_setup @ [sim_log, sim_pay, sim_appeal, sim_approve, sim_approve]) deployed sim_vid
         \<le> 1"
    by blast
  from run run' r more pa cr again len steps show ?thesis by (auto simp: sim_fine_def)
qed

subsection \<open>The bookkeeping invariant\<close>

lemma logViolation_totals:
  assumes "logViolation k m now vehicle code evidence driver s = Inr (vid, s')"
  shows "totalFinesPaid s' = totalFinesPaid s" and "totalFinesRefunded s' = totalFinesRefunded s"
    and "entered s' = entered s"
  using assms
  by (auto simp: logViolation_def Let_def emit_def split: if_splits option.splits)

lemma payFine_totals:
  assumes "payFine m msg_value accepted vid s = Inr s'"
  shows "violations s' = (violations s)(vid := (violations s vid)
            \<lparr> status := Paid, paidAmount := fineAmount (violations s vid), paidBy := m \<rparr>)"
    and "status (violations s vid) = Unpaid" and "violationExists s vid"
    and "totalFinesPaid s' = totalFinesPaid s + fineAmount (violations s vid)"
    and "totalFinesPaid s + fineAmount (violations s vid) \<le> uint256_max"
    and "totalFinesRefunded s' = totalFinesRefunded s"
    and "\<not> entered s" and "\<not> entered s'"
  using assms
  by (auto simp: payFine_def send_value_def violationExists_def Let_def emit_def
           split: if_splits option.splits)

lemma submitAppeal_totals:
  assumes "submitAppeal m now vid reason s = Inr s'"
  shows "status (violations s vid) = Unpaid \<or> status (violations s vid) = Paid"
    and "violationExists s vid"
    and "totalFinesPaid s' = totalFinesPaid s" and "totalFinesRefunded s' = totalFinesRefunded s"
    and "entered s' = entered s"
  using assms
  by (auto simp: submitAppeal_def Let_def emit_def split: if_splits)

lemma resolveAppeal_totals:
  assumes "resolveAppeal m vid approve rtext s = Inr s'"
  shows "status (violations s vid) = Appealed" and "violationExists s vid"
    and "totalFinesPaid s' = totalFinesPaid s"
    and "totalFinesRefunded s' =
           (if approve \<and> paidAmount (violations s vid) > 0
            then totalFinesRefunded s + paidAmount (violations s vid)
            else totalFinesRefunded s)"
    and "entered s' = entered s"
  using assms
  by (auto simp: resolveAppeal_def Let_def emit_def split: if_splits)

lemma held_sum_update:
  assumes "finite V" and "violations s' = (violations s)(vid := x)"
  shows "held_sum s' V =
     (if vid \<in> V then paidAmount x + held_sum s (V - {vid}) else held_sum s V)"
proof (cases "vid \<in> V")
  case True
  have "held_sum s' V = paidAmount (violations s' vid) + held_sum s' (V - {vid})"
    unfolding held_sum_def using assms(1) True by (rule sum.remove)
  moreover have "held_sum s' (V - {vid}) = held_sum s (V - {vid})"
    unfolding held_sum_def by (rule sum.cong) (simp_all add: assms(2))
  ultimately show ?thesis using True by (simp add: assms(2))
next
  case False
  have "held_sum s' V = held_sum s V"
    unfolding held_sum_def by (rule sum.cong) (use False in \<open>auto simp: assms(2)\<close>)
  with False show ?thesis by simp
qed

lemma held_sum_insert:
  assumes "finite V" and "vid \<notin> V"
  shows "held_sum s (insert vid V) = paidAmount (violations s vid) + held_sum s V"
  unfolding held_sum_def using assms by simp

lemma held_minus:
  assumes "held s' V" and "violations s' = (violations s)(vid := x)"
  shows "held s (V - {vid})"
  using assms by (auto simp: held_def)

lemma sum_pending_update:
  assumes "finite A"
  shows "(\<Sum>a \<in> A. ((pendingRefunds s)(p := pendingRefunds s p + d)) a)
           \<le> (\<Sum>a \<in> A. pendingRefunds s a) + d"
proof (cases "p \<in> A")
  case True
  have "(\<Sum>a \<in> A. ((pendingRefunds s)(p := pendingRefunds s p + d)) a)
          = (pendingRefunds s p + d)
            + (\<Sum>a \<in> A - {p}. ((pendingRefunds s)(p := pendingRefunds s p + d)) a)"
    using sum.remove[OF assms True, of "(pendingRefunds s)(p := pendingRefunds s p + d)"]
    by simp
  also have "(\<Sum>a \<in> A - {p}. ((pendingRefunds s)(p := pendingRefunds s p + d)) a)
          = (\<Sum>a \<in> A - {p}. pendingRefunds s a)"
    by (rule sum.cong) simp_all
  also have "(pendingRefunds s p + d) + (\<Sum>a \<in> A - {p}. pendingRefunds s a)
          = (\<Sum>a \<in> A. pendingRefunds s a) + d"
    using sum.remove[OF assms True, of "pendingRefunds s"] by simp
  finally show ?thesis by simp
next
  case False
  have "(\<Sum>a \<in> A. ((pendingRefunds s)(p := pendingRefunds s p + d)) a)
          = (\<Sum>a \<in> A. pendingRefunds s a)"
    by (rule sum.cong) (use False in auto)
  then show ?thesis by simp
qed

lemma funds_inv_deployed: "funds_inv deployed"
  by (simp add: funds_inv_def held_def held_sum_def deployed_def zero_Violation_def)

lemma funds_inv_quiet:
  assumes inv: "funds_inv s" and q: "quiet s s'"
  shows "funds_inv s'"
proof -
  from q have v: "violations s' = violations s" and tp: "totalFinesPaid s' = totalFinesPaid s"
    and tr: "totalFinesRefunded s' = totalFinesRefunded s" and en: "entered s' = entered s"
    and le: "\<And>a. pendingRefunds s' a \<le> pendingRefunds s a"
    by (simp_all add: quiet_def)
  have h: "held s' V = held s V" "held_sum s' V = held_sum s V" for V
    by (simp_all add: held_def held_sum_def v)
  have "held_sum s' V + (\<Sum>a \<in> A. pendingRefunds s' a) \<le> totalFinesPaid s'"
    if "held s' V" and "finite A" for V A
  proof -
    have "(\<Sum>a \<in> A. pendingRefunds s' a) \<le> (\<Sum>a \<in> A. pendingRefunds s a)"
      by (rule sum_mono) (rule le)
    moreover from inv that have "held_sum s V + (\<Sum>a \<in> A. pendingRefunds s a) \<le> totalFinesPaid s"
      by (simp add: funds_inv_def h)
    ultimately show ?thesis by (simp add: h tp)
  qed
  with inv show ?thesis
    by (simp add: funds_inv_def h tp tr en v violationExists_def)
qed

lemma funds_inv_update:
  assumes inv: "funds_inv s"
    and v: "violations s' = (violations s)(vid := x)"
    and en: "entered s' = entered s"
    and ex: "status x \<noteq> Unpaid \<longrightarrow> timestamp x \<noteq> 0"
    and un: "status x = Unpaid \<longrightarrow> paidAmount x = 0"
    and tp: "totalFinesPaid s' \<le> uint256_max"
    and bound: "\<And>V A. held s V \<Longrightarrow> vid \<notin> V \<Longrightarrow> finite A \<Longrightarrow>
        (if status x \<in> {Paid, Appealed} then paidAmount x else 0) + held_sum s V
          + (\<Sum>a \<in> A. pendingRefunds s' a) \<le> totalFinesPaid s'"
    and bound2: "\<And>V. held s V \<Longrightarrow> vid \<notin> V \<Longrightarrow>
        (if status x \<in> {Paid, Appealed} then paidAmount x else 0) + held_sum s V
          + totalFinesRefunded s' \<le> totalFinesPaid s'"
  shows "funds_inv s'"
proof -
  have part: "held s (V - {vid}) \<and> vid \<notin> V - {vid}
      \<and> held_sum s' V \<le> (if status x \<in> {Paid, Appealed} then paidAmount x else 0)
                           + held_sum s (V - {vid})"
    if h: "held s' V" for V
  proof -
    from h have fin: "finite V" by (simp add: held_def)
    from h v have hm: "held s (V - {vid})" by (rule held_minus)
    have "held_sum s' V \<le> (if status x \<in> {Paid, Appealed} then paidAmount x else 0)
                           + held_sum s (V - {vid})"
    proof (cases "vid \<in> V")
      case True
      with h v have "status x \<in> {Paid, Appealed}" by (auto simp: held_def)
      with True held_sum_update[OF fin v] show ?thesis by simp
    next
      case False
      then have "V - {vid} = V" by auto
      with False held_sum_update[OF fin v] show ?thesis by simp
    qed
    with hm show ?thesis by simp
  qed
  have a: "held_sum s' V + (\<Sum>a \<in> A. pendingRefunds s' a) \<le> totalFinesPaid s'"
    if "held s' V" and "finite A" for V A
    using part[OF that(1)] bound[of "V - {vid}" A] that(2) by auto
  have b: "held_sum s' V + totalFinesRefunded s' \<le> totalFinesPaid s'" if "held s' V" for V
    using part[OF that] bound2[of "V - {vid}"] by auto
  have c: "violationExists s' y" if "status (violations s' y) \<noteq> Unpaid" for y
    using that inv ex by (cases "y = vid") (auto simp: v violationExists_def funds_inv_def)
  have d: "paidAmount (violations s' y) = 0" if "status (violations s' y) = Unpaid" for y
    using that inv un by (cases "y = vid") (auto simp: v funds_inv_def)
  from inv en have "\<not> entered s'" by (simp add: funds_inv_def)
  with a b c d tp show ?thesis unfolding funds_inv_def by blast
qed

lemma funds_inv_held:
  fixes A :: "address set"
  assumes "funds_inv s" and "held s V" and "finite A"
  shows "held_sum s V + (\<Sum>a \<in> A. pendingRefunds s a) \<le> totalFinesPaid s"
    and "held_sum s V + totalFinesRefunded s \<le> totalFinesPaid s"
  using assms by (simp_all add: funds_inv_def)

lemma held_insert:
  assumes "held s V" and "status (violations s vid) \<in> {Paid, Appealed}"
  shows "held s (insert vid V)"
  using assms by (auto simp: held_def)

lemma funds_inv_step:
  assumes inv: "funds_inv s" and step: "exec k m now c s = Inr s'"
  shows "funds_inv s'"
  using step
proof (cases rule: exec_cases)
  case quiet
  with inv show ?thesis by (rule funds_inv_quiet)
next
  case (log vehicle code evidence driver vid)
  from logViolation_effect(1)[OF log(2)] obtain x where
    v: "violations s' = (violations s)(vid := x)" and x: "status x = Unpaid" "paidAmount x = 0"
    by blast
  note t = logViolation_totals[OF log(2)] logViolation_effect(3)[OF log(2)]
  from inv have tp: "totalFinesPaid s' \<le> uint256_max" by (simp add: funds_inv_def t)
  show ?thesis
  proof (rule funds_inv_update[OF inv v t(3) _ _ tp])
    show "status x \<noteq> Unpaid \<longrightarrow> timestamp x \<noteq> 0" by (simp add: x)
    show "status x = Unpaid \<longrightarrow> paidAmount x = 0" by (simp add: x)
  next
    fix V and A :: "address set" assume "held s V" "finite A"
    from funds_inv_held(1)[OF inv this]
    show "(if status x \<in> {Paid, Appealed} then paidAmount x else 0) + held_sum s V
          + (\<Sum>a \<in> A. pendingRefunds s' a) \<le> totalFinesPaid s'"
      by (simp add: x t)
  next
    fix V assume "held s V"
    from funds_inv_held(2)[OF inv this, of "{}"]
    show "(if status x \<in> {Paid, Appealed} then paidAmount x else 0) + held_sum s V
          + totalFinesRefunded s' \<le> totalFinesPaid s'"
      by (simp add: x t)
  qed
next
  case (pay vid msg_value accepted)
  note t = payFine_totals[OF pay(2)] payFine_effect(3)[OF pay(2)]
  let ?x = "(violations s vid)
            \<lparr> status := Paid, paidAmount := fineAmount (violations s vid), paidBy := m \<rparr>"
  from t(3) have ts: "timestamp (violations s vid) \<noteq> 0" by (simp add: violationExists_def)
  have en: "entered s' = entered s" using t(7,8) by simp
  have tp: "totalFinesPaid s' \<le> uint256_max" using t(4,5) by simp
  show ?thesis
  proof (rule funds_inv_update[OF inv t(1) en _ _ tp])
    show "status ?x \<noteq> Unpaid \<longrightarrow> timestamp ?x \<noteq> 0" by (simp add: ts)
    show "status ?x = Unpaid \<longrightarrow> paidAmount ?x = 0" by simp
  next
    fix V and A :: "address set" assume "held s V" "finite A"
    from funds_inv_held(1)[OF inv this]
    show "(if status ?x \<in> {Paid, Appealed} then paidAmount ?x else 0) + held_sum s V
          + (\<Sum>a \<in> A. pendingRefunds s' a) \<le> totalFinesPaid s'"
      by (simp add: t)
  next
    fix V assume "held s V"
    from funds_inv_held(2)[OF inv this, of "{}"]
    show "(if status ?x \<in> {Paid, Appealed} then paidAmount ?x else 0) + held_sum s V
          + totalFinesRefunded s' \<le> totalFinesPaid s'"
      by (simp add: t)
  qed
next
  case (appeal vid reason)
  note t = submitAppeal_totals[OF appeal(2)] submitAppeal_effect(4)[OF appeal(2)]
  note v = submitAppeal_effect(1)[OF appeal(2)]
  let ?x = "(violations s vid)\<lparr> status := Appealed \<rparr>"
  let ?p = "paidAmount (violations s vid)"
  from t(2) have ts: "timestamp (violations s vid) \<noteq> 0" by (simp add: violationExists_def)
  from inv have tp: "totalFinesPaid s' \<le> uint256_max" by (simp add: funds_inv_def t)
  have with_vid: "?p + held_sum s V + (\<Sum>a \<in> A. pendingRefunds s a) \<le> totalFinesPaid s
      \<and> ?p + held_sum s V + totalFinesRefunded s \<le> totalFinesPaid s"
    if hv: "held s V" and nv: "vid \<notin> V" and fa: "finite A" for V and A :: "address set"
  proof (cases "status (violations s vid) = Paid")
    case True
    with hv have hi: "held s (insert vid V)" by (auto intro: held_insert)
    from hv have "finite V" by (simp add: held_def)
    from held_sum_insert[OF this nv] funds_inv_held[OF inv hi fa] show ?thesis by simp
  next
    case False
    with t(1) inv have "?p = 0" by (auto simp: funds_inv_def)
    with funds_inv_held[OF inv hv fa] show ?thesis by simp
  qed
  show ?thesis
  proof (rule funds_inv_update[OF inv v t(5) _ _ tp])
    show "status ?x \<noteq> Unpaid \<longrightarrow> timestamp ?x \<noteq> 0" by (simp add: ts)
    show "status ?x = Unpaid \<longrightarrow> paidAmount ?x = 0" by simp
  next
    fix V and A :: "address set" assume "held s V" "vid \<notin> V" "finite A"
    from with_vid[OF this]
    show "(if status ?x \<in> {Paid, Appealed} then paidAmount ?x else 0) + held_sum s V
          + (\<Sum>a \<in> A. pendingRefunds s' a) \<le> totalFinesPaid s'"
      by (simp add: t)
  next
    fix V assume "held s V" "vid \<notin> V"
    from with_vid[OF this, of "{}"]
    show "(if status ?x \<in> {Paid, Appealed} then paidAmount ?x else 0) + held_sum s V
          + totalFinesRefunded s' \<le> totalFinesPaid s'"
      by (simp add: t)
  qed
next
  case (resolve vid approve rtext)
  note t = resolveAppeal_totals[OF resolve(2)]
  note e = resolveAppeal_effect[OF resolve(2)]
  let ?p = "paidAmount (violations s vid)"
  let ?st = "if approve then (if ?p > 0 then Refunded else Waived)
             else (if ?p > 0 then Paid else Rejected)"
  let ?x = "(violations s vid)\<lparr> status := ?st \<rparr>"
  from t(2) have ts: "timestamp (violations s vid) \<noteq> 0" by (simp add: violationExists_def)
  from inv have tp: "totalFinesPaid s' \<le> uint256_max" by (simp add: funds_inv_def t)
  have with_vid: "?p + held_sum s V + (\<Sum>a \<in> A. pendingRefunds s a) \<le> totalFinesPaid s
      \<and> ?p + held_sum s V + totalFinesRefunded s \<le> totalFinesPaid s"
    if hv: "held s V" and nv: "vid \<notin> V" and fa: "finite A" for V and A :: "address set"
  proof -
    from hv t(1) have hi: "held s (insert vid V)" by (auto intro: held_insert)
    from hv have "finite V" by (simp add: held_def)
    from held_sum_insert[OF this nv] funds_inv_held[OF inv hi fa] show ?thesis by simp
  qed
  show ?thesis
  proof (rule funds_inv_update[OF inv e(1) t(5) _ _ tp])
    show "status ?x \<noteq> Unpaid \<longrightarrow> timestamp ?x \<noteq> 0" by (simp add: ts)
    show "status ?x = Unpaid \<longrightarrow> paidAmount ?x = 0" by simp
  next
    fix V and A :: "address set" assume h: "held s V" "vid \<notin> V" "finite A"
    from with_vid[OF h] sum_pending_update[OF h(3), of s "paidBy (violations s vid)" ?p]
    show "(if status ?x \<in> {Paid, Appealed} then paidAmount ?x else 0) + held_sum s V
          + (\<Sum>a \<in> A. pendingRefunds s' a) \<le> totalFinesPaid s'"
      by (auto simp: t e(4))
  next
    fix V assume h: "held s V" "vid \<notin> V"
    from with_vid[OF h, of "{}"]
    show "(if status ?x \<in> {Paid, Appealed} then paidAmount ?x else 0) + held_sum s V
          + totalFinesRefunded s' \<le> totalFinesPaid s'"
      by (auto simp: t)
  qed
qed

lemma funds_inv_reachable: "reachable k s \<Longrightarrow> funds_inv s"
  by (induction rule: reachable.induct) (auto intro: funds_inv_deployed funds_inv_step)

lemma reachable_refund_fits:
  assumes r: "reachable k s" and st: "status (violations s vid) = Appealed"
  shows "violationExists s vid"
    and "pendingRefunds s a + paidAmount (violations s vid) \<le> uint256_max"
    and "totalFinesRefunded s + paidAmount (violations s vid) \<le> uint256_max"
proof -
  from funds_inv_reachable[OF r] have inv: "funds_inv s" .
  from inv st show "violationExists s vid" by (auto simp: funds_inv_def)
  from st have h: "held s {vid}" by (simp add: held_def)
  from funds_inv_held[OF inv h, of "{a}"] inv
  show "pendingRefunds s a + paidAmount (violations s vid) \<le> uint256_max"
    and "totalFinesRefunded s + paidAmount (violations s vid) \<le> uint256_max"
    by (simp_all add: held_sum_def funds_inv_def)
qed

subsection \<open>Resolving an appeal\<close>

lemma resolveAppeal_result:
  assumes "hasRole s JUDGE_ROLE judge" and "violationExists s vid" and "\<not> paused s"
    and "status (violations s vid) = Appealed" and "\<not> resolved (appeals s vid)"
    and "approve \<and> paidAmount (violations s vid) > 0 \<longrightarrow>
           pendingRefunds s (paidBy (violations s vid)) + paidAmount (violations s vid)
             \<le> uint256_max
           \<and> totalFinesRefunded s + paidAmount (violations s vid) \<le> uint256_max"
  shows "\<exists>s'. resolveAppeal judge vid approve rtext s = Inr s'
     \<and> resolved (appeals s' vid) \<and> approved (appeals s' vid) = approve
     \<and> resolution (appeals s' vid) = rtext \<and> resolvedBy (appeals s' vid) = judge
     \<and> status (violations s' vid) =
          (if approve then (if paidAmount (violations s vid) > 0 then Refunded else Waived)
           else (if paidAmount (violations s vid) > 0 then Paid else Rejected))
     \<and> (if approve \<and> paidAmount (violations s vid) > 0
         then pendingRefunds s' = (pendingRefunds s)
                (paidBy (violations s vid) :=
                   pendingRefunds s (paidBy (violations s vid)) + paidAmount (violations s vid))
              \<and> totalFinesRefunded s' = totalFinesRefunded s + paidAmount (violations s vid)
              \<and> events s' = events s @
                    [FineRefunded vid (paidBy (violations s vid)) (paidAmount (violations s vid)),
                     AppealResolved vid approve rtext judge]
         else pendingRefunds s' = pendingRefunds s
              \<and> totalFinesRefunded s' = totalFinesRefunded s
              \<and> events s' = events s @ [AppealResolved vid approve rtext judge])"
  using assms
  by (auto simp: resolveAppeal_def emit_def Let_def)

text \<open>
  C4. In every reachable storage that is not paused, for every violation that is Appealed
  with an appeal not yet resolved, \<^verbatim>\<open>resolveAppeal\<close> called by a holder of the judge
  role returns. It marks the appeal resolved and stores the decision, the resolution text
  and the caller. The new status is Refunded for an approval of a paid violation, which
  credits the payer's pending refund with the paid amount, adds it to the total refunded
  and logs the refund; Waived for an approval of an unpaid one; Paid for a rejection of a
  paid one; Rejected for a rejection of an unpaid one. Outside the first case the refund
  queue and the refunded total are unchanged. (In a reachable storage an Appealed
  violation exists, and the two checked additions of the refund cannot overflow: what is
  owed never exceeds what was collected.)
\<close>

theorem resolveAppeal_branches:
  assumes "reachable k s" and "hasRole s JUDGE_ROLE judge" and "\<not> paused s"
    and "status (violations s vid) = Appealed" and "\<not> resolved (appeals s vid)"
  shows "\<exists>s'. resolveAppeal judge vid approve rtext s = Inr s'
     \<and> resolved (appeals s' vid) \<and> approved (appeals s' vid) = approve
     \<and> resolution (appeals s' vid) = rtext \<and> resolvedBy (appeals s' vid) = judge
     \<and> status (violations s' vid) =
          (if approve then (if paidAmount (violations s vid) > 0 then Refunded else Waived)
           else (if paidAmount (violations s vid) > 0 then Paid else Rejected))
     \<and> (if approve \<and> paidAmount (violations s vid) > 0
         then pendingRefunds s' = (pendingRefunds s)
                (paidBy (violations s vid) :=
                   pendingRefunds s (paidBy (violations s vid)) + paidAmount (violations s vid))
              \<and> totalFinesRefunded s' = totalFinesRefunded s + paidAmount (violations s vid)
              \<and> events s' = events s @
                    [FineRefunded vid (paidBy (violations s vid)) (paidAmount (violations s vid)),
                     AppealResolved vid approve rtext judge]
         else pendingRefunds s' = pendingRefunds s
              \<and> totalFinesRefunded s' = totalFinesRefunded s
              \<and> events s' = events s @ [AppealResolved vid approve rtext judge])"
proof -
  note fits = reachable_refund_fits[OF assms(1,4)]
  have "approve \<and> paidAmount (violations s vid) > 0 \<longrightarrow>
           pendingRefunds s (paidBy (violations s vid)) + paidAmount (violations s vid)
             \<le> uint256_max
           \<and> totalFinesRefunded s + paidAmount (violations s vid) \<le> uint256_max"
    using fits(2,3) by simp
  from resolveAppeal_result[OF assms(2) fits(1) assms(3,4,5) this] show ?thesis .
qed

lemma sim_appealed_facts:
  "\<exists>s. run poly_hash (sim_setup @ [sim_log, sim_pay, sim_appeal]) deployed = Inr s
     \<and> hasRole s JUDGE_ROLE 4 \<and> \<not> paused s
     \<and> status (violations s sim_vid) = Appealed \<and> \<not> resolved (appeals s sim_vid)
     \<and> paidAmount (violations s sim_vid) = sim_fine \<and> paidBy (violations s sim_vid) = 3
     \<and> pendingRefunds s 3 = 0 \<and> totalFinesRefunded s = 0"
  by (simp add: eval_defs sim_vid_def)

theorem resolveAppeal_branches_witness:
  "\<exists>s s'. run poly_hash (sim_setup @ [sim_log, sim_pay, sim_appeal]) deployed = Inr s
     \<and> reachable poly_hash s
     \<and> status (violations s sim_vid) = Appealed
     \<and> paidAmount (violations s sim_vid) = sim_fine
     \<and> paidBy (violations s sim_vid) = 3
     \<and> resolveAppeal 4 sim_vid True ''Medical emergency verified.'' s = Inr s'
     \<and> status (violations s' sim_vid) = Refunded
     \<and> resolvedBy (appeals s' sim_vid) = 4
     \<and> pendingRefunds s' 3 = sim_fine
     \<and> totalFinesRefunded s' = sim_fine"
proof -
  from sim_appealed_facts obtain s where
    run: "run poly_hash (sim_setup @ [sim_log, sim_pay, sim_appeal]) deployed = Inr s"
    and h1: "hasRole s JUDGE_ROLE 4"
    and h3: "\<not> paused s" and h4: "status (violations s sim_vid) = Appealed"
    and h5: "\<not> resolved (appeals s sim_vid)"
    and p: "paidAmount (violations s sim_vid) = sim_fine"
    and b: "paidBy (violations s sim_vid) = 3"
    and q: "pendingRefunds s 3 = 0" and r: "totalFinesRefunded s = 0"
    by blast
  have re: "reachable poly_hash s"
    using reachable_deployed run by (rule reachable_run)
  from resolveAppeal_branches[OF re h1 h3 h4 h5, of True "''Medical emergency verified.''"]
  obtain s' where "resolveAppeal 4 sim_vid True ''Medical emergency verified.'' s = Inr s'"
     and "status (violations s' sim_vid) = Refunded"
     and "resolvedBy (appeals s' sim_vid) = 4"
     and "pendingRefunds s' 3 = sim_fine"
     and "totalFinesRefunded s' = sim_fine"
    by (auto simp: p b q r sim_fine_def)
  with run re h4 p b show ?thesis by blast
qed

subsection \<open>The daily ceiling\<close>

lemma day_of_second: "i < 86400 \<Longrightarrow> (1700006400 + i) div 86400 = (19676::nat)"
  by arith

lemma one_more_log:
  assumes "hasRole s OFFICER_ROLE 2" and "\<not> paused s"
    and "Offense.isActive (offenses s 4)" and "fineAmountKES (offenses s 4) = 10000"
    and "officerDailyViolations s 2 19676 = 0"
    and "i < 86400" and "logged_on s 2 19676 = n" and "totalViolations s = n" and "n < 1000"
  shows "\<exists>s'. exec k 2 (1700006400 + i) (LogViolation ''KZZ 999Z'' 4 ''QmHash123'' 3) s = Inr s'
     \<and> hasRole s' OFFICER_ROLE 2 \<and> \<not> paused s'
     \<and> Offense.isActive (offenses s' 4) \<and> fineAmountKES (offenses s' 4) = 10000
     \<and> officerDailyViolations s' 2 19676 = 0
     \<and> logged_on s' 2 19676 = Suc n \<and> totalViolations s' = Suc n"
  using assms
  by (auto simp: logViolation_def rateLimited_def validString_def validAddress_def hasRole_def
        emit_def logged_on_def Let_def day_of_second const_defs)

lemma many_logs:
  "n \<le> 101 \<Longrightarrow>
   \<exists>s. run k (sim_setup @ sim_logs n) deployed = Inr s
     \<and> hasRole s OFFICER_ROLE 2 \<and> \<not> paused s
     \<and> Offense.isActive (offenses s 4) \<and> fineAmountKES (offenses s 4) = 10000
     \<and> officerDailyViolations s 2 19676 = 0
     \<and> logged_on s 2 19676 = n \<and> totalViolations s = n"
proof (induction n)
  case 0
  show ?case by (simp add: sim_logs_def logged_on_def eval_defs)
next
  case (Suc n)
  then obtain s where
    run: "run k (sim_setup @ sim_logs n) deployed = Inr s"
    and pre: "hasRole s OFFICER_ROLE 2" "\<not> paused s" "Offense.isActive (offenses s 4)"
      "fineAmountKES (offenses s 4) = 10000" "officerDailyViolations s 2 19676 = 0"
    and cnt: "logged_on s 2 19676 = n" "totalViolations s = n"
    by auto
  from Suc.prems have small: "n < 86400" "n < 1000" by simp_all
  from one_more_log[OF pre small(1) cnt small(2), of k] obtain s' where
    ex: "exec k 2 (1700006400 + n) (LogViolation ''KZZ 999Z'' 4 ''QmHash123'' 3) s = Inr s'"
    and post: "hasRole s' OFFICER_ROLE 2" "\<not> paused s'" "Offense.isActive (offenses s' 4)"
      "fineAmountKES (offenses s' 4) = 10000" "officerDailyViolations s' 2 19676 = 0"
      "logged_on s' 2 19676 = Suc n" "totalViolations s' = Suc n"
    by blast
  from run_snoc[OF run ex]
  have "run k (sim_setup @ sim_logs (Suc n)) deployed = Inr s'"
    by (simp add: sim_logs_def)
  with post show ?case by blast
qed

text \<open>
  C1. The daily ceiling is not enforced. After the setup of the simulation, officer 2
  logs 101 violations at 101 successive seconds of the same day: with any hash function
  every one of the calls returns, the 101st included, and the officer's counter for the
  day stands at 101, above \<^verbatim>\<open>MAX_VIOLATIONS_PER_DAY\<close>. The modifier
  \<^verbatim>\<open>rateLimited\<close> reads \<^verbatim>\<open>officerDailyViolations\<close>, which nothing writes; the
  counter that \<^verbatim>\<open>logViolation\<close> does advance is compared with nothing.
\<close>

theorem daily_ceiling_not_enforced:
  "\<exists>s. run k (sim_setup @ sim_logs 101) deployed = Inr s
     \<and> lastViolationDate (officers s 2) = 19676
     \<and> dailyViolationCount (officers s 2) = 101
     \<and> dailyViolationCount (officers s 2) > MAX_VIOLATIONS_PER_DAY
     \<and> officerDailyViolations s 2 19676 = 0"
proof -
  from many_logs[of 101 k] obtain s where
    "run k (sim_setup @ sim_logs 101) deployed = Inr s"
    and "officerDailyViolations s 2 19676 = 0" and "logged_on s 2 19676 = 101"
    by auto
  then show ?thesis
    by (auto simp: logged_on_def MAX_VIOLATIONS_PER_DAY_def split: if_splits)
qed

theorem daily_ceiling_not_enforced_witness:
  "\<exists>s. run poly_hash (sim_setup @ sim_logs 101) deployed = Inr s
     \<and> dailyViolationCount (officers s 2) = 101"
  using daily_ceiling_not_enforced[of poly_hash] by blast

text \<open>
  What \<^verbatim>\<open>logViolation\<close> does do with the counters of the Officer record: it restarts
  the count on a new day and adds one.
\<close>

lemma logViolation_counter:
  assumes "logViolation k m now vehicle code evidence driver s = Inr (vid, s')"
  shows "lastViolationDate (officers s' m) = now div one_day
     \<and> dailyViolationCount (officers s' m) =
         (if lastViolationDate (officers s m) \<noteq> now div one_day then 1
          else dailyViolationCount (officers s m) + 1)"
  using assms
  by (auto simp: logViolation_def emit_def Let_def split: if_splits option.splits)

subsection \<open>The pause\<close>

lemma paused_registerOfficer:
  "paused s \<Longrightarrow> isl (registerOfficer m now officer nm badge s)
     \<and> (hasRole s OFFICER_MANAGER_ROLE m \<and> validAddress officer
          \<and> validString nm MAX_STRING_LENGTH = None
          \<and> validString badge MAX_BADGE_LENGTH = None \<longrightarrow>
        registerOfficer m now officer nm badge s = Inl EnforcedPause)"
  by (auto simp: registerOfficer_def split: option.splits)

lemma paused_deactivateOfficer:
  "paused s \<Longrightarrow> isl (deactivateOfficer m officer s)
     \<and> (hasRole s OFFICER_MANAGER_ROLE m \<longrightarrow> deactivateOfficer m officer s = Inl EnforcedPause)"
  by (auto simp: deactivateOfficer_def)

lemma paused_logViolation:
  "paused s \<Longrightarrow> isl (logViolation k m now vehicle code evidence driver s)
     \<and> (hasRole s OFFICER_ROLE m \<and> rateLimited s m now
          \<and> validString vehicle MAX_VEHICLE_ID_LENGTH = None
          \<and> validString evidence MAX_STRING_LENGTH = None \<and> validAddress driver \<longrightarrow>
        logViolation k m now vehicle code evidence driver s = Inl EnforcedPause)"
  by (auto simp: logViolation_def split: option.splits)

lemma paused_payFine:
  "paused s \<Longrightarrow> isl (payFine m msg_value accepted vid s)
     \<and> (\<not> entered s \<and> violationExists s vid \<longrightarrow>
        payFine m msg_value accepted vid s = Inl EnforcedPause)"
  by (auto simp: payFine_def violationExists_def Let_def)

lemma paused_submitAppeal:
  "paused s \<Longrightarrow> isl (submitAppeal m now vid reason s)
     \<and> (violationExists s vid \<longrightarrow> submitAppeal m now vid reason s = Inl EnforcedPause)"
  by (auto simp: submitAppeal_def)

lemma paused_resolveAppeal:
  "paused s \<Longrightarrow> isl (resolveAppeal m vid approve rtext s)
     \<and> (hasRole s JUDGE_ROLE m \<and> violationExists s vid \<longrightarrow>
        resolveAppeal m vid approve rtext s = Inl EnforcedPause)"
  by (auto simp: resolveAppeal_def)

lemma paused_claimRefund:
  "paused s \<Longrightarrow> isl (claimRefund m accepted s)
     \<and> (\<not> entered s \<longrightarrow> claimRefund m accepted s = Inl EnforcedPause)"
  by (auto simp: claimRefund_def claimRefund_effects_def)

lemma paused_pause:
  "paused s \<Longrightarrow> isl (pause m s) \<and> (hasRole s ADMIN_ROLE m \<longrightarrow> pause m s = Inl EnforcedPause)"
  by (auto simp: pause_def)

lemma ungated_updateOffense:
  "hasRole s ADMIN_ROLE m \<Longrightarrow>
   updateOffense m code amountKES nm active s =
     Inr (emit (OffenseUpdated code amountKES nm)
           (s\<lparr> offenses := (offenses s)
                (code := \<lparr> fineAmountKES = amountKES, Offense.name = nm,
                           Offense.isActive = active \<rparr>) \<rparr>))"
  by (simp add: updateOffense_def)

lemma ungated_withdrawFunds:
  "hasRole s TREASURY_ROLE m \<Longrightarrow> \<not> entered s \<Longrightarrow> amount \<le> balance s \<Longrightarrow> recipient \<noteq> 0
     \<Longrightarrow> accepted \<Longrightarrow>
   withdrawFunds m accepted recipient amount s =
     Inr (emit (FundsWithdrawn m recipient amount)
           (s\<lparr> entered := False, balance := balance s - amount,
               sent := sent s @ [(recipient, amount)] \<rparr>))"
  by (simp add: withdrawFunds_def send_value_def emit_def)

lemma sim_paused_facts:
  "\<exists>s. run poly_hash (sim_setup @ [sim_log, sim_pay, sim_pause]) deployed = Inr s
     \<and> paused s \<and> \<not> entered s \<and> violationExists s sim_vid
     \<and> hasRole s ADMIN_ROLE 1 \<and> hasRole s TREASURY_ROLE 1
     \<and> fineAmountKES (offenses s 4) = 10000 \<and> balance s = sim_fine \<and> sent s = []"
  by (simp add: eval_defs sim_vid_def)

text \<open>
  C2, as stated, fails. The simulation is run up to the payment of the fine and the
  administrator pauses the ledger. On the paused ledger \<^verbatim>\<open>updateOffense\<close> still
  returns and doubles the fine of offense 4, and \<^verbatim>\<open>withdrawFunds\<close> still returns and
  moves the collected fine out.
\<close>

theorem pause_totality_counterexample:
  "paused (after (sim_setup @ [sim_log, sim_pay, sim_pause]))
   \<and> fineAmountKES (offenses (after (sim_setup @ [sim_log, sim_pay, sim_pause])) 4) = 10000
   \<and> balance (after (sim_setup @ [sim_log, sim_pay, sim_pause])) = sim_fine
   \<and> \<not> isl (updateOffense 1 4 20000 ''Speeding 16-20 kph over limit'' True
             (after (sim_setup @ [sim_log, sim_pay, sim_pause])))
   \<and> fineAmountKES (offenses (projr (updateOffense 1 4 20000 ''Speeding 16-20 kph over limit''
         True (after (sim_setup @ [sim_log, sim_pay, sim_pause])))) 4) = 20000
   \<and> \<not> isl (withdrawFunds 1 True 1 sim_fine (after (sim_setup @ [sim_log, sim_pay, sim_pause])))
   \<and> balance (projr (withdrawFunds 1 True 1 sim_fine
         (after (sim_setup @ [sim_log, sim_pay, sim_pause])))) = 0
   \<and> sent (projr (withdrawFunds 1 True 1 sim_fine
         (after (sim_setup @ [sim_log, sim_pay, sim_pause])))) = [(1, sim_fine)]"
proof -
  from sim_paused_facts obtain s where
    run: "run poly_hash (sim_setup @ [sim_log, sim_pay, sim_pause]) deployed = Inr s"
    and f: "paused s" "\<not> entered s" "hasRole s ADMIN_ROLE 1" "hasRole s TREASURY_ROLE 1"
      "fineAmountKES (offenses s 4) = 10000" "balance s = sim_fine" "sent s = []"
    by blast
  have s: "after (sim_setup @ [sim_log, sim_pay, sim_pause]) = s"
    by (simp add: after_def run)
  have le: "sim_fine \<le> balance s" by (simp add: f)
  have ne: "(1::address) \<noteq> 0" by simp
  show ?thesis
    unfolding s
    by (simp add: f ungated_updateOffense[OF f(3)]
          ungated_withdrawFunds[OF f(4) f(2) le ne TrueI] emit_def)
qed

text \<open>
  C2, amended. While the ledger is paused, \<^verbatim>\<open>registerOfficer\<close>,
  \<^verbatim>\<open>deactivateOfficer\<close>, \<^verbatim>\<open>logViolation\<close>, \<^verbatim>\<open>payFine\<close>,
  \<^verbatim>\<open>submitAppeal\<close>, \<^verbatim>\<open>resolveAppeal\<close>, \<^verbatim>\<open>claimRefund\<close> and
  \<^verbatim>\<open>pause\<close> itself always revert, whatever the caller and the arguments, so they
  change nothing; the revert is the pause's own (\<^verbatim>\<open>EnforcedPause\<close>) as soon as the
  checks that stand before the pause gate in the entry point pass (the role, the rate
  guard, the argument validation, the existence of the violation, the re-entry guard).
  \<^verbatim>\<open>updateOffense\<close> and \<^verbatim>\<open>withdrawFunds\<close> carry no pause gate: on a paused
  ledger they return under their usual conditions. The reads do not depend on the flag.
\<close>

theorem pause_gate:
  assumes "paused s"
  shows "isl (registerOfficer m now officer nm badge s)
     \<and> isl (deactivateOfficer m officer s)
     \<and> isl (logViolation k m now vehicle code evidence driver s)
     \<and> isl (payFine m msg_value accepted vid s)
     \<and> isl (submitAppeal m now vid reason s)
     \<and> isl (resolveAppeal m vid approve rtext s)
     \<and> isl (claimRefund m accepted s)
     \<and> isl (pause m s)
     \<and> (hasRole s OFFICER_MANAGER_ROLE m \<and> validAddress officer
          \<and> validString nm MAX_STRING_LENGTH = None
          \<and> validString badge MAX_BADGE_LENGTH = None \<longrightarrow>
        registerOfficer m now officer nm badge s = Inl EnforcedPause)
     \<and> (hasRole s OFFICER_MANAGER_ROLE m \<longrightarrow> deactivateOfficer m officer s = Inl EnforcedPause)
     \<and> (hasRole s OFFICER_ROLE m \<and> rateLimited s m now
          \<and> validString vehicle MAX_VEHICLE_ID_LENGTH = None
          \<and> validString evidence MAX_STRING_LENGTH = None \<and> validAddress driver \<longrightarrow>
        logViolation k m now vehicle code evidence driver s = Inl EnforcedPause)
     \<and> (\<not> entered s \<and> violationExists s vid \<longrightarrow>
        payFine m msg_value accepted vid s = Inl EnforcedPause)
     \<and> (violationExists s vid \<longrightarrow> submitAppeal m now vid reason s = Inl EnforcedPause)
     \<and> (hasRole s JUDGE_ROLE m \<and> violationExists s vid \<longrightarrow>
        resolveAppeal m vid approve rtext s = Inl EnforcedPause)
     \<and> (\<not> entered s \<longrightarrow> claimRefund m accepted s = Inl EnforcedPause)
     \<and> (hasRole s ADMIN_ROLE m \<longrightarrow> pause m s = Inl EnforcedPause)
     \<and> (hasRole s ADMIN_ROLE m \<longrightarrow> \<not> isl (updateOffense m code amountKES nm active s))
     \<and> (hasRole s TREASURY_ROLE m \<and> \<not> entered s \<and> amount \<le> balance s \<and> recipient \<noteq> 0
          \<and> accepted \<longrightarrow> \<not> isl (withdrawFunds m accepted recipient amount s))
     \<and> getViolation s vid = getViolation (s\<lparr> paused := False \<rparr>) vid
     \<and> getVehicleViolations s vehicle offset limit
         = getVehicleViolations (s\<lparr> paused := False \<rparr>) vehicle offset limit
     \<and> isOfficerActive s officer = isOfficerActive (s\<lparr> paused := False \<rparr>) officer"
proof -
  have reads: "getViolation s vid = getViolation (s\<lparr> paused := False \<rparr>) vid
     \<and> getVehicleViolations s vehicle offset limit
         = getVehicleViolations (s\<lparr> paused := False \<rparr>) vehicle offset limit
     \<and> isOfficerActive s officer = isOfficerActive (s\<lparr> paused := False \<rparr>) officer"
    by (simp add: getViolation_def getVehicleViolations_def isOfficerActive_def
          violationExists_def hasRole_def)
  have upd: "hasRole s ADMIN_ROLE m \<longrightarrow> \<not> isl (updateOffense m code amountKES nm active s)"
    by (simp add: ungated_updateOffense)
  have wd: "hasRole s TREASURY_ROLE m \<and> \<not> entered s \<and> amount \<le> balance s \<and> recipient \<noteq> 0
          \<and> accepted \<longrightarrow> \<not> isl (withdrawFunds m accepted recipient amount s)"
    by (simp add: ungated_withdrawFunds)
  from paused_registerOfficer[OF assms, of m now officer nm badge]
    paused_deactivateOfficer[OF assms, of m officer]
    paused_logViolation[OF assms, of k m now vehicle code evidence driver]
    paused_payFine[OF assms, of m msg_value accepted vid]
    paused_submitAppeal[OF assms, of m now vid reason]
    paused_resolveAppeal[OF assms, of m vid approve rtext]
    paused_claimRefund[OF assms, of m accepted]
    paused_pause[OF assms, of m] reads upd wd
  show ?thesis by blast
qed

theorem pause_gate_witness:
  "paused (after (sim_setup @ [sim_log, sim_pay, sim_pause]))
   \<and> payFine 3 sim_fine True sim_vid (after (sim_setup @ [sim_log, sim_pay, sim_pause]))
       = Inl EnforcedPause
   \<and> claimRefund 3 True (after (sim_setup @ [sim_log, sim_pay, sim_pause])) = Inl EnforcedPause
   \<and> submitAppeal 3 1700000006 sim_vid ''I was rushing to the hospital.''
        (after (sim_setup @ [sim_log, sim_pay, sim_pause])) = Inl EnforcedPause
   \<and> \<not> isl (updateOffense 1 4 20000 ''Speeding 16-20 kph over limit'' True
             (after (sim_setup @ [sim_log, sim_pay, sim_pause])))"
proof -
  from sim_paused_facts obtain s where
    run: "run poly_hash (sim_setup @ [sim_log, sim_pay, sim_pause]) deployed = Inr s"
    and f: "paused s" "\<not> entered s" "violationExists s sim_vid" "hasRole s ADMIN_ROLE 1"
    by blast
  have s: "after (sim_setup @ [sim_log, sim_pay, sim_pause]) = s"
    by (simp add: after_def run)
  from pause_gate[OF f(1), where m = 3 and msg_value = sim_fine and accepted = True
      and vid = sim_vid] f(2,3)
  have a: "payFine 3 sim_fine True sim_vid s = Inl EnforcedPause"
    and b: "claimRefund 3 True s = Inl EnforcedPause"
    by blast+
  from pause_gate[OF f(1), where m = 3 and now = 1700000006 and vid = sim_vid
      and reason = "''I was rushing to the hospital.''"] f(3)
  have c: "submitAppeal 3 1700000006 sim_vid ''I was rushing to the hospital.'' s
            = Inl EnforcedPause"
    by blast
  from pause_gate[OF f(1), where m = 1 and code = 4 and amountKES = 20000
      and nm = "''Speeding 16-20 kph over limit''" and active = True] f(4)
  have d: "\<not> isl (updateOffense 1 4 20000 ''Speeding 16-20 kph over limit'' True s)"
    by blast
  from f(1) a b c d show ?thesis unfolding s by blast
qed

subsection \<open>The identifier of a violation\<close>





end
